theory Spec2Isabelle
  imports Main "HOL-Library.AList" "HOL-Library.Char_ord" "HOL-Library.List_Lexorder"
    "HOL-Library.Multiset"
begin

section \<open>Data model (internal/model and internal/rippler)\<close>

text \<open>
  Go strings are byte sequences; they are modelled as \<open>string\<close> (a list of 8-bit
  characters). A nil slice and an empty slice are both the empty list: the code only
  ever ranges over, appends to, or takes the length of its slices.
\<close>

record GoModDependency =
  Path :: string
  Version :: string
  Indirect :: bool

record GoModReplace =
  Old :: GoModDependency
  New :: GoModDependency

record GoMod =
  Module :: GoModDependency
  Go :: string
  Require :: "GoModDependency list"
  Exclude :: "GoModDependency list"
  Replace :: "GoModReplace list"
  Tool :: "GoModDependency list"

record Package =
  Dir :: string
  GoFiles :: "string list"
  ImportPath :: string
  Imports :: "string list"
  TestImports :: "string list"
  XTestImports :: "string list"
  Deps :: "string list"

text \<open>
  \<open>model.AffectedPackage\<close>: its fields \<open>ImportPath\<close> and \<open>Indirect\<close> carry the prefix
  \<open>ap_\<close> here, because a record field is a constant and the two names are taken by
  \<open>Package\<close> and \<open>GoModDependency\<close>.
\<close>

record AffectedPackage =
  ap_ImportPath :: string
  ap_Indirect :: bool

record Change =
  PackageName :: string
  Reasons :: "string list"

record Report =
  GoMod :: GoMod
  DirtyFiles :: "string list"
  AllPackages :: "Package list"
  AffectedPackages :: "AffectedPackage list"
  Changes :: "Change list"

record Rippler =
  goModFilePath :: string
  baseBranch :: string

text \<open>
  An error value: either one produced outside the program (a failed subprocess, a failed
  file write, a decoding failure of the standard library), or \<open>fmt.Errorf("<msg>: %w", err)\<close>
  wrapping another error.
\<close>

datatype error = ExternalError string | Errorf string error

section \<open>Standard library functions used by the code\<close>

text \<open>\<open>strings.HasPrefix(s, prefix)\<close> is \<open>len(s) >= len(prefix) && s[:len(prefix)] == prefix\<close>.\<close>

definition strings_HasPrefix :: "string \<Rightarrow> string \<Rightarrow> bool" where
  "strings_HasPrefix s prefix \<longleftrightarrow> length prefix \<le> length s \<and> take (length prefix) s = prefix"

text \<open>\<open>strings.HasSuffix(s, suffix)\<close> is \<open>len(s) >= len(suffix) && s[len(s)-len(suffix):] == suffix\<close>.\<close>

definition strings_HasSuffix :: "string \<Rightarrow> string \<Rightarrow> bool" where
  "strings_HasSuffix s suffix \<longleftrightarrow>
     length suffix \<le> length s \<and> drop (length s - length suffix) s = suffix"

text \<open>
  \<open>strings.Compare(a, b)\<close>: the byte-wise lexicographic three-way comparison, \<open>-1\<close>, \<open>0\<close>
  or \<open>+1\<close>.
\<close>

fun strings_Compare :: "string \<Rightarrow> string \<Rightarrow> int" where
  "strings_Compare [] [] = 0"
| "strings_Compare [] (y # ys) = - 1"
| "strings_Compare (x # xs) [] = 1"
| "strings_Compare (x # xs) (y # ys) =
     (if (of_char x :: nat) < of_char y then - 1
      else if (of_char y :: nat) < of_char x then 1
      else strings_Compare xs ys)"

text \<open>
  \<open>slices.SortFunc(xs, cmp)\<close> sorts \<open>xs\<close> in ascending order as determined by \<open>cmp\<close>. The
  library's algorithm is not stable; it is modelled by insertion sort. On a list whose
  elements are pairwise different under \<open>cmp\<close> (the only use in this program) every
  correct sorting algorithm returns the same list, see \<open>sorted_permutation_unique\<close>
  below.
\<close>

fun insert_by :: "('a \<Rightarrow> 'a \<Rightarrow> int) \<Rightarrow> 'a \<Rightarrow> 'a list \<Rightarrow> 'a list" where
  "insert_by cmp x [] = [x]"
| "insert_by cmp x (y # ys) = (if cmp x y \<le> 0 then x # y # ys else y # insert_by cmp x ys)"

definition slices_SortFunc :: "('a \<Rightarrow> 'a \<Rightarrow> int) \<Rightarrow> 'a list \<Rightarrow> 'a list" where
  "slices_SortFunc cmp xs = foldr (insert_by cmp) xs []"

section \<open>Iteration over Go maps\<close>

text \<open>
  The order in which \<open>for k := range m\<close> visits the keys of a Go map is chosen by the
  runtime and differs from run to run. Each \<open>range\<close> statement over a map in the program
  is a \<open>site\<close>; a \<open>range_order\<close> gives, for every site and every key set, the order the
  runtime picks there. The only thing the language guarantees is that every key is
  visited exactly once (\<open>valid_range\<close>).
\<close>

datatype site =
    RangeAffected      \<comment> \<open>\<open>affectedPackagesByFileChanges\<close>: \<open>for i := range affected\<close>\<close>
  | RangeCurrentMods   \<comment> \<open>\<open>getChangedIndirectModules\<close>: \<open>for path, newVer := range currentMods\<close>\<close>
  | RangeQueue         \<comment> \<open>\<open>propagateAffectedPackages\<close>: \<open>for pkg := range initialMap\<close> (queue)\<close>
  | RangeOut           \<comment> \<open>\<open>propagateAffectedPackages\<close>: \<open>for pkg := range initialMap\<close> (out)\<close>
  | RangeUnified       \<comment> \<open>\<open>unifyChanges\<close>: \<open>for i := range unified\<close>\<close>

type_synonym range_order = "site \<Rightarrow> string set \<Rightarrow> string list"

definition valid_range :: "range_order \<Rightarrow> bool" where
  "valid_range rng \<longleftrightarrow> (\<forall>i S. finite S \<longrightarrow> set (rng i S) = S \<and> distinct (rng i S))"

text \<open>Two concrete orders, used to run the model: ascending and descending keys.\<close>

definition ascending_range :: range_order where
  "ascending_range i S = sorted_list_of_set S"

definition descending_range :: range_order where
  "descending_range i S = rev (sorted_list_of_set S)"

section \<open>Reverse-graph propagation (propagateAffectedPackages)\<close>

text \<open>
  \<open>dependents\<close> is a \<open>map[string][]string\<close>, modelled as an association list with unique
  keys. Reading a missing key of a Go map yields the zero value, here the nil slice.
\<close>

type_synonym dep_map = "(string \<times> string list) list"

definition dep_lookup :: "dep_map \<Rightarrow> string \<Rightarrow> string list" where
  "dep_lookup deps k = (case map_of deps k of None \<Rightarrow> [] | Some ds \<Rightarrow> ds)"

text \<open>\<open>dependents[imp] = append(dependents[imp], path)\<close>\<close>

definition add_dependent :: "string \<Rightarrow> string \<Rightarrow> dep_map \<Rightarrow> dep_map" where
  "add_dependent path imp deps = AList.update imp (dep_lookup deps imp @ [path]) deps"

text \<open>
  \<open>fullPackageImports := append(append(Imports, TestImports...), XTestImports...)\<close>
\<close>

definition fullPackageImports :: "Package \<Rightarrow> string list" where
  "fullPackageImports p = (Imports p @ TestImports p) @ XTestImports p"

definition build_dependents :: "Package list \<Rightarrow> dep_map" where
  "build_dependents pkgs =
     fold (\<lambda>p deps. fold (add_dependent (ImportPath p)) (fullPackageImports p) deps) pkgs []"

text \<open>
  The inner loop \<open>for _, dep := range dependents[current]\<close>: a dependent that is not yet
  in \<open>initialMap\<close> is added to it and appended to the queue.
\<close>

fun visit :: "string list \<Rightarrow> string set \<times> string list \<Rightarrow> string set \<times> string list" where
  "visit [] (initialMap, queue) = (initialMap, queue)"
| "visit (dep # deps) (initialMap, queue) =
     (if dep \<notin> initialMap then visit deps (insert dep initialMap, queue @ [dep])
      else visit deps (initialMap, queue))"

text \<open>Every identifier that occurs in some dependents list.\<close>

definition dep_values :: "dep_map \<Rightarrow> string set" where
  "dep_values deps = (\<Union>kv \<in> set deps. set (snd kv))"

text \<open>
  The outer loop \<open>for len(queue) > 0\<close>. It terminates because every round either marks a
  new identifier of the (finite) reverse graph or shortens the queue.
\<close>

function bfs :: "dep_map \<Rightarrow> string set \<Rightarrow> string list \<Rightarrow> string set" where
  "bfs dependents initialMap [] = initialMap"
| "bfs dependents initialMap (current # queue) =
     (case visit (dep_lookup dependents current) (initialMap, queue) of
        (initialMap', queue') \<Rightarrow> bfs dependents initialMap' queue')"
  by pat_completeness auto
termination
proof (relation "measures [\<lambda>(deps, m, q). card (dep_values deps - m), \<lambda>(deps, m, q). length q]")
  show "wf (measures [\<lambda>(deps, m, q). card (dep_values deps - m), \<lambda>(deps, m, q). length q])"
    by simp
next
  fix dependents :: dep_map and initialMap :: "string set" and current :: string
    and queue :: "string list" and initialMap' :: "string set" and queue' :: "string list"
  assume "(initialMap', queue') = visit (dep_lookup dependents current) (initialMap, queue)"
  then have v: "visit (dep_lookup dependents current) (initialMap, queue) = (initialMap', queue')"
    by simp
  have grows: "m \<subseteq> m' \<and> m' \<subseteq> m \<union> set ds \<and> (m' = m \<longrightarrow> q' = q)"
    if "visit ds (m, q) = (m', q')" for ds m q m' q'
    using that
  proof (induction ds arbitrary: m q)
    case Nil
    then show ?case by simp
  next
    case (Cons d ds)
    show ?case
    proof (cases "d \<in> m")
      case True
      with Cons.prems have "visit ds (m, q) = (m', q')" by simp
      from Cons.IH [OF this] show ?thesis by auto
    next
      case False
      with Cons.prems have "visit ds (insert d m, q @ [d]) = (m', q')" by simp
      from Cons.IH [OF this] False show ?thesis by auto
    qed
  qed
  note mono = grows [OF v]
  have vals: "set (dep_lookup dependents current) \<subseteq> dep_values dependents"
  proof (cases "map_of dependents current")
    case None
    then show ?thesis by (simp add: dep_lookup_def)
  next
    case (Some ds)
    then have "(current, ds) \<in> set dependents" by (rule map_of_SomeD)
    with Some show ?thesis by (force simp: dep_lookup_def dep_values_def)
  qed
  show "((dependents, initialMap', queue'), (dependents, initialMap, current # queue))
          \<in> measures [\<lambda>(deps, m, q). card (dep_values deps - m), \<lambda>(deps, m, q). length q]"
  proof (cases "initialMap' = initialMap")
    case True
    with mono show ?thesis by simp
  next
    case False
    with mono obtain d where d: "d \<in> initialMap'" "d \<notin> initialMap" by blast
    with mono vals have "d \<in> dep_values dependents" by blast
    with d mono have "dep_values dependents - initialMap' \<subset> dep_values dependents - initialMap"
      by blast
    moreover have "finite (dep_values dependents - initialMap)"
      by (simp add: dep_values_def)
    ultimately have "card (dep_values dependents - initialMap')
        < card (dep_values dependents - initialMap)"
      by (rule psubset_card_mono [rotated])
    then show ?thesis by simp
  qed
qed

text \<open>
  \<open>propagateAffectedPackages\<close>. \<open>initialMap\<close> is a \<open>map[string]struct{}\<close>, a set of strings.
\<close>

definition propagateAffectedPackages :: "range_order \<Rightarrow> Report \<Rightarrow> AffectedPackage list" where
  "propagateAffectedPackages rng report =
     (let initial = Changes report;
          initialMap = fold (\<lambda>c m. insert (PackageName c) m) initial {};
          dependents = build_dependents (AllPackages report);
          queue = rng RangeQueue initialMap;
          initialMap = bfs dependents initialMap queue;
          out = map (\<lambda>pkg. \<lparr>ap_ImportPath = pkg,
                            ap_Indirect = (\<not> strings_HasPrefix pkg (Path (Module (GoMod report))))\<rparr>)
                  (rng RangeOut initialMap)
      in slices_SortFunc (\<lambda>a b. strings_Compare (ap_ImportPath a) (ap_ImportPath b)) out)"

section \<open>Change reconciliation (unifyChanges)\<close>

text \<open>
  A \<open>map[string]Change\<close> is an association list with unique keys. Indexing it with a key it
  does not hold yields the zero \<open>Change\<close>.
\<close>

type_synonym change_map = "(string \<times> Change) list"

definition zero_Change :: Change where
  "zero_Change = \<lparr>PackageName = [], Reasons = []\<rparr>"

definition change_at :: "change_map \<Rightarrow> string \<Rightarrow> Change" where
  "change_at m k = (case map_of m k of None \<Rightarrow> zero_Change | Some c \<Rightarrow> c)"

definition map_keys :: "('k \<times> 'v) list \<Rightarrow> 'k set" where
  "map_keys m = set (map fst m)"

text \<open>The body of the loop \<open>for i := range ch\<close> of \<open>unifyChanges\<close>.\<close>

definition unify_step :: "Change \<Rightarrow> change_map \<Rightarrow> change_map" where
  "unify_step c unified =
     (case map_of unified (PackageName c) of
        Some existing \<Rightarrow>
          AList.update (PackageName c) (existing\<lparr>Reasons := Reasons existing @ Reasons c\<rparr>) unified
      | None \<Rightarrow> AList.update (PackageName c) c unified)"

definition unifyChanges :: "range_order \<Rightarrow> Change list \<Rightarrow> Change list" where
  "unifyChanges rng ch =
     (let unified = fold unify_step ch []
      in map (change_at unified) (rng RangeUnified (map_keys unified)))"

section \<open>The environment of one invocation\<close>

text \<open>
  The program runs subprocesses (\<open>git\<close>, \<open>go\<close>) and writes temporary files. A \<open>call\<close> is
  one such interaction; the \<open>respond\<close> component of the environment gives its outcome
  (an error, or the standard output of the subprocess) as a function of the calls made
  before it, so that a subprocess may read a file written earlier. Every function that
  interacts takes the trace of the calls made so far and returns it extended.

  The other components are the standard-library functions whose results depend on the
  platform or on Unicode tables: they are parameters of the model.
\<close>

datatype call =
    Exec "string list"         \<comment> \<open>\<open>exec.CommandContext(ctx, argv...)\<close>, run to completion\<close>
  | WriteFile string string    \<comment> \<open>\<open>os.WriteFile(name, data, 0644)\<close>\<close>

record env =
  respond :: "call list \<Rightarrow> call \<Rightarrow> error + string"
  json_Unmarshal_GoMod :: "string \<Rightarrow> error + GoMod"
  json_Decode_Packages :: "string \<Rightarrow> error + Package list"
  filepath_Abs :: "string \<Rightarrow> error + string"
  filepath_Join :: "string \<Rightarrow> string \<Rightarrow> string"
  strings_Fields :: "string \<Rightarrow> string list"
  strings_TrimSpace :: "string \<Rightarrow> string"
  os_TempDir :: string

type_synonym 'a io = "call list \<Rightarrow> (error + 'a) \<times> call list"

definition perform :: "env \<Rightarrow> call \<Rightarrow> string io" where
  "perform e c tr = (respond e tr c, tr @ [c])"

text \<open>\<open>strings.Split(s, "\n")\<close>: the pieces of \<open>s\<close> between line feeds, one more than there
  are line feeds.\<close>

fun strings_Split_lf :: "string \<Rightarrow> string list" where
  "strings_Split_lf [] = [[]]"
| "strings_Split_lf (c # cs) =
     (if c = CHR 0x0A then [] # strings_Split_lf cs
      else (case strings_Split_lf cs of
              [] \<Rightarrow> [[c]]
            | l # ls \<Rightarrow> (c # l) # ls))"

section \<open>Reading the project (parseGoMod, getChangedGoFiles, listAllPackages)\<close>

definition parseGoMod :: "env \<Rightarrow> string \<Rightarrow> GoMod io" where
  "parseGoMod e path tr =
     (case perform e (Exec [''go'', ''mod'', ''edit'', ''-json'', path]) tr of
        (Inl err, tr') \<Rightarrow> (Inl (Errorf (''failed to parse go.mod ('' @ path @ '')'') err), tr')
      | (Inr out, tr') \<Rightarrow>
          (case json_Unmarshal_GoMod e out of
             Inl juErr \<Rightarrow> (Inl (Errorf ''failed to unmarshal go.mod'' juErr), tr')
           | Inr gomod \<Rightarrow> (Inr gomod, tr')))"

text \<open>
  The loop of \<open>getChangedGoFiles\<close> over the lines of the diff, with \<open>goFiles\<close> as
  accumulator: it returns at the first line whose absolute path cannot be computed.
\<close>

fun absGoFiles :: "env \<Rightarrow> string list \<Rightarrow> string list \<Rightarrow> error + string list" where
  "absGoFiles e [] goFiles = Inr goFiles"
| "absGoFiles e (line # outLines) goFiles =
     (if \<not> strings_HasSuffix line ''.go'' then absGoFiles e outLines goFiles
      else (case filepath_Abs e line of
              Inl fpErr \<Rightarrow> Inl (Errorf (''failed to get absolute path for '' @ line) fpErr)
            | Inr absPath \<Rightarrow> absGoFiles e outLines (goFiles @ [absPath])))"

definition getChangedGoFiles :: "env \<Rightarrow> Rippler \<Rightarrow> string list io" where
  "getChangedGoFiles e r tr =
     (case perform e (Exec [''git'', ''diff'', ''--name-only'', baseBranch r]) tr of
        (Inl err, tr') \<Rightarrow> (Inl (Errorf ''git diff failed'' err), tr')
      | (Inr out, tr') \<Rightarrow> (absGoFiles e (strings_Split_lf out) [], tr'))"

text \<open>
  \<open>listAllPackages\<close>: the decoder loop over the JSON stream is \<open>json_Decode_Packages\<close>,
  which fails when one of the values fails to decode.
\<close>

definition listAllPackages :: "env \<Rightarrow> Package list io" where
  "listAllPackages e tr =
     (case perform e (Exec [''go'', ''list'', ''-json'', ''./...'']) tr of
        (Inl err, tr') \<Rightarrow> (Inl (Errorf ''go list failed'' err), tr')
      | (Inr out, tr') \<Rightarrow>
          (case json_Decode_Packages e out of
             Inl err \<Rightarrow> (Inl (Errorf ''failed to decode package'' err), tr')
           | Inr packages \<Rightarrow> (Inr packages, tr')))"

section \<open>File changes (mapPackagesByFile, affectedPackagesByFileChanges)\<close>

definition mapPackagesByFile :: "env \<Rightarrow> Package list \<Rightarrow> (string \<times> string) list" where
  "mapPackagesByFile e pkgs =
     fold (\<lambda>p result.
             fold (\<lambda>goFile result.
                     AList.update (filepath_Join e (Dir p) goFile) (ImportPath p) result)
               (GoFiles p) result)
       pkgs []"

text \<open>\<open>fmt.Sprintf("file %s has changed", file)\<close>\<close>

definition file_reason :: "string \<Rightarrow> string" where
  "file_reason file = ''file '' @ file @ '' has changed''"

text \<open>The body of the loop \<open>for i := range report.DirtyFiles\<close>.\<close>

definition affected_step :: "(string \<times> string) list \<Rightarrow> string \<Rightarrow> change_map \<Rightarrow> change_map" where
  "affected_step pkgMap file affected =
     (case map_of pkgMap file of
        Some pkg \<Rightarrow>
          (case map_of affected pkg of
             None \<Rightarrow>
               AList.update pkg \<lparr>PackageName = pkg, Reasons = [file_reason file]\<rparr> affected
           | Some ch \<Rightarrow>
               AList.update pkg (ch\<lparr>Reasons := Reasons ch @ [file_reason file]\<rparr>) affected)
      | None \<Rightarrow> affected)"

definition affectedPackagesByFileChanges :: "env \<Rightarrow> range_order \<Rightarrow> Report \<Rightarrow> Change list" where
  "affectedPackagesByFileChanges e rng report =
     (let pkgMap = mapPackagesByFile e (AllPackages report);
          affected = fold (affected_step pkgMap) (DirtyFiles report) []
      in map (change_at affected) (rng RangeAffected (map_keys affected)))"

section \<open>Manifest changes (goModHasChanged, getChangedModules, affectedPackagesByGoModChange)\<close>

definition goModHasChanged :: "env \<Rightarrow> Rippler \<Rightarrow> bool io" where
  "goModHasChanged e r tr =
     (case perform e (Exec [''git'', ''diff'', ''--name-only'', baseBranch r, ''--'', ''go.mod'']) tr of
        (Inl err, tr') \<Rightarrow> (Inl (Errorf ''git diff for go.mod failed'' err), tr')
      | (Inr out, tr') \<Rightarrow> (Inr (strings_TrimSpace e out \<noteq> []), tr'))"

text \<open>
  The second half of \<open>getChangedModules\<close>: \<open>oldSet\<close> maps every path of the baseline's
  \<open>Require\<close> list to its version (a later entry for the same path overwrites an earlier
  one), and the paths of the current \<open>Require\<close> list whose version is not the one in
  \<open>oldSet\<close> are collected in order.
\<close>

definition oldSet_of :: "GoMod \<Rightarrow> (string \<times> string) list" where
  "oldSet_of oldMod = fold (\<lambda>d oldSet. AList.update (Path d) (Version d) oldSet) (Require oldMod) []"

definition changed_requirements :: "GoMod \<Rightarrow> GoMod \<Rightarrow> string list" where
  "changed_requirements oldMod currentGoMod =
     (let oldSet = oldSet_of oldMod
      in map Path
           (filter (\<lambda>d. case map_of oldSet (Path d) of
                             None \<Rightarrow> True
                           | Some oldVer \<Rightarrow> oldVer \<noteq> Version d)
              (Require currentGoMod)))"

definition getChangedModules :: "env \<Rightarrow> Rippler \<Rightarrow> GoMod \<Rightarrow> string list io" where
  "getChangedModules e r currentGoMod tr =
     (let tmp = filepath_Join e (os_TempDir e) ''go.mod.base'' in
      case perform e (Exec [''git'', ''show'', baseBranch r @ '':go.mod'']) tr of
        (Inl err, tr1) \<Rightarrow> (Inl (Errorf ''failed to get base go.mod'' err), tr1)
      | (Inr out, tr1) \<Rightarrow>
          (case perform e (WriteFile tmp out) tr1 of
             (Inl wfErr, tr2) \<Rightarrow> (Inl (Errorf ''failed to write temp go.mod'' wfErr), tr2)
           | (Inr _, tr2) \<Rightarrow>
               (case parseGoMod e tmp tr2 of
                  (Inl err, tr3) \<Rightarrow> (Inl err, tr3)
                | (Inr oldMod, tr3) \<Rightarrow> (Inr (changed_requirements oldMod currentGoMod), tr3))))"

text \<open>\<open>fmt.Sprintf("module %s has changed in go.mod", mod)\<close>\<close>

definition module_reason :: "string \<Rightarrow> string" where
  "module_reason m = ''module '' @ m @ '' has changed in go.mod''"

definition affectedPackagesByGoModChange :: "env \<Rightarrow> Rippler \<Rightarrow> Report \<Rightarrow> Change list io" where
  "affectedPackagesByGoModChange e r report tr =
     (case goModHasChanged e r tr of
        (Inl err, tr1) \<Rightarrow> (Inl (Errorf ''failed to check if go.mod has changed'' err), tr1)
      | (Inr modChanged, tr1) \<Rightarrow>
          if \<not> modChanged then (Inr [], tr1)
          else (case getChangedModules e r (GoMod report) tr1 of
                  (Inl cmErr, tr2) \<Rightarrow> (Inl (Errorf ''failed to get changed modules'' cmErr), tr2)
                | (Inr changedMods, tr2) \<Rightarrow>
                    (Inr (map (\<lambda>m. \<lparr>PackageName = m, Reasons = [module_reason m]\<rparr>)
                            changedMods), tr2)))"

section \<open>Resolved dependencies (getAllModules, getBaseModules, getChangedIndirectModules)\<close>

text \<open>
  The loop shared by \<open>getAllModules\<close> and \<open>getBaseModules\<close>: a line with at least two
  fields sets \<open>modules[fields[0]] = fields[1]\<close>. A \<open>map[string]string\<close> is an association
  list with unique keys.
\<close>

definition string_at :: "(string \<times> string) list \<Rightarrow> string \<Rightarrow> string" where
  "string_at m k = (case map_of m k of None \<Rightarrow> [] | Some v \<Rightarrow> v)"

definition modules_step :: "env \<Rightarrow> string \<Rightarrow> (string \<times> string) list \<Rightarrow> (string \<times> string) list" where
  "modules_step e line modules =
     (case strings_Fields e line of
        f0 # f1 # _ \<Rightarrow> AList.update f0 f1 modules
      | _ \<Rightarrow> modules)"

definition parse_modules :: "env \<Rightarrow> string \<Rightarrow> (string \<times> string) list" where
  "parse_modules e out = fold (modules_step e) (strings_Split_lf out) []"

definition getAllModules :: "env \<Rightarrow> (string \<times> string) list io" where
  "getAllModules e tr =
     (case perform e (Exec [''go'', ''list'', ''-m'', ''all'']) tr of
        (Inl err, tr') \<Rightarrow> (Inl (Errorf ''failed to list current modules'' err), tr')
      | (Inr out, tr') \<Rightarrow> (Inr (parse_modules e out), tr'))"

text \<open>
  \<open>getBaseModules\<close>. A failure of \<open>git show <base>:go.sum\<close> is not an error: the file is
  then simply not written.
\<close>

definition list_base_modules :: "env \<Rightarrow> string \<Rightarrow> (string \<times> string) list io" where
  "list_base_modules e tmpMod tr =
     (case perform e (Exec [''go'', ''list'', ''-m'', ''-modfile='' @ tmpMod, ''all'']) tr of
        (Inl err, tr') \<Rightarrow> (Inl (Errorf ''failed to list base modules'' err), tr')
      | (Inr out, tr') \<Rightarrow> (Inr (parse_modules e out), tr'))"

definition getBaseModules :: "env \<Rightarrow> Rippler \<Rightarrow> (string \<times> string) list io" where
  "getBaseModules e r tr =
     (let tmpMod = filepath_Join e (os_TempDir e) ''go.base.mod'';
          tmpSum = filepath_Join e (os_TempDir e) ''go.base.sum'' in
      case perform e (Exec [''git'', ''show'', baseBranch r @ '':go.mod'']) tr of
        (Inl err, tr1) \<Rightarrow> (Inl (Errorf ''failed to get base go.mod'' err), tr1)
      | (Inr out, tr1) \<Rightarrow>
          (case perform e (WriteFile tmpMod out) tr1 of
             (Inl wfErr, tr2) \<Rightarrow> (Inl (Errorf ''failed to write base go.mod'' wfErr), tr2)
           | (Inr _, tr2) \<Rightarrow>
               (case perform e (Exec [''git'', ''show'', baseBranch r @ '':go.sum'']) tr2 of
                  (Inl err, tr3) \<Rightarrow> list_base_modules e tmpMod tr3
                | (Inr sumOut, tr3) \<Rightarrow>
                    (case perform e (WriteFile tmpSum sumOut) tr3 of
                       (Inl wfErr, tr4) \<Rightarrow> (Inl (Errorf ''failed to write base go.sum'' wfErr), tr4)
                     | (Inr _, tr4) \<Rightarrow> list_base_modules e tmpMod tr4))))"

text \<open>
  The loop \<open>for path, newVer := range currentMods\<close> of \<open>getChangedIndirectModules\<close>, in
  the order the runtime picks.
\<close>

definition changed_modules :: "range_order \<Rightarrow> (string \<times> string) list \<Rightarrow> (string \<times> string) list \<Rightarrow> string list" where
  "changed_modules rng baseMods currentMods =
     filter (\<lambda>path. let newVer = string_at currentMods path in
                    case map_of baseMods path of
                      None \<Rightarrow> True
                    | Some oldVer \<Rightarrow> oldVer \<noteq> newVer)
       (rng RangeCurrentMods (map_keys currentMods))"

definition getChangedIndirectModules :: "env \<Rightarrow> range_order \<Rightarrow> Rippler \<Rightarrow> string list io" where
  "getChangedIndirectModules e rng r tr =
     (case getBaseModules e r tr of
        (Inl err, tr1) \<Rightarrow> (Inl err, tr1)
      | (Inr baseMods, tr1) \<Rightarrow>
          (case getAllModules e tr1 of
             (Inl err, tr2) \<Rightarrow> (Inl err, tr2)
           | (Inr currentMods, tr2) \<Rightarrow> (Inr (changed_modules rng baseMods currentMods), tr2)))"

text \<open>\<open>fmt.Sprintf("indirect module %s has changed in go.sum", mod)\<close>\<close>

definition indirect_reason :: "string \<Rightarrow> string" where
  "indirect_reason m = ''indirect module '' @ m @ '' has changed in go.sum''"

definition affectedPackagesByExternalModule :: "env \<Rightarrow> range_order \<Rightarrow> Rippler \<Rightarrow> Change list io" where
  "affectedPackagesByExternalModule e rng r tr =
     (case getChangedIndirectModules e rng r tr of
        (Inl err, tr') \<Rightarrow> (Inl (Errorf ''failed to get changed indirect modules'' err), tr')
      | (Inr indirectMods, tr') \<Rightarrow>
          (Inr (map (\<lambda>m. \<lparr>PackageName = m, Reasons = [indirect_reason m]\<rparr>) indirectMods), tr'))"

section \<open>The pipeline (Rippler.Changes)\<close>

text \<open>The zero values \<open>model.GoMod{}\<close> and \<open>Report{}\<close>.\<close>

definition zero_GoMod :: GoMod where
  "zero_GoMod =
     \<lparr>Module = \<lparr>Path = [], Version = [], Indirect = False\<rparr>, Go = [], Require = [],
      Exclude = [], Replace = [], Tool = []\<rparr>"

definition zero_Report :: Report where
  "zero_Report =
     \<lparr>GoMod = zero_GoMod, DirtyFiles = [], AllPackages = [], AffectedPackages = [],
      Changes = []\<rparr>"

text \<open>
  \<open>Changes\<close> returns a pair \<open>(*Report, error)\<close>; each component may be nil, so the model
  returns a pair of options (and the trace). The method is named \<open>Rippler_Changes\<close> because
  \<open>Changes\<close> is also a field of \<open>Report\<close>.
\<close>

definition Rippler_Changes ::
  "env \<Rightarrow> range_order \<Rightarrow> Rippler \<Rightarrow> call list \<Rightarrow> (Report option \<times> error option) \<times> call list" where
  "Rippler_Changes e rng r tr =
     (let report = zero_Report in
      case parseGoMod e (goModFilePath r) tr of
        (Inl err, tr1) \<Rightarrow> ((None, Some (Errorf ''failed to parse go.mod'' err)), tr1)
      | (Inr gomod, tr1) \<Rightarrow>
     (let report = report\<lparr>GoMod := gomod\<rparr> in
      case listAllPackages e tr1 of
        (Inl err, tr2) \<Rightarrow> ((None, Some (Errorf ''failed to list all packages'' err)), tr2)
      | (Inr allPackages, tr2) \<Rightarrow>
     (let report = report\<lparr>AllPackages := allPackages\<rparr> in
      case getChangedGoFiles e r tr2 of
        (Inl err, tr3) \<Rightarrow> ((None, Some (Errorf ''failed to get changed Go files'' err)), tr3)
      | (Inr dirtyFiles, tr3) \<Rightarrow>
     (let report = report\<lparr>DirtyFiles := dirtyFiles\<rparr>;
          changes = affectedPackagesByFileChanges e rng report in
      case affectedPackagesByGoModChange e r report tr3 of
        (Inl aErr, tr4) \<Rightarrow>
          ((None, Some (Errorf ''failed to determine affected packages by go.mod change'' aErr)), tr4)
      | (Inr affectedByModChange, tr4) \<Rightarrow>
     (let changes = changes @ affectedByModChange in
      case affectedPackagesByExternalModule e rng r tr4 of
        (Inl aErr, tr5) \<Rightarrow>
          ((None, Some (Errorf
              ''failed to determine affected packages by external module change'' aErr)), tr5)
      | (Inr affectedByByExternalModChange, tr5) \<Rightarrow>
     (let changes = changes @ affectedByByExternalModChange;
          report = report\<lparr>Changes := unifyChanges rng changes\<rparr>;
          report = report\<lparr>AffectedPackages := propagateAffectedPackages rng report\<rparr>
      in ((Some report, None), tr5)))))))"

section \<open>The properties, in the words of the specification\<close>

text \<open>
  The reverse import graph: an edge from \<open>x\<close> to \<open>y\<close> says that \<open>x\<close> is imported by \<open>y\<close>, that
  is, some unit of the inventory with identifier \<open>y\<close> lists \<open>x\<close> among its ordinary,
  test-internal or test-external imports.
\<close>

definition imported_by :: "Package list \<Rightarrow> (string \<times> string) set" where
  "imported_by pkgs =
     {(x, y). \<exists>p \<in> set pkgs. y = ImportPath p \<and>
                x \<in> set (Imports p) \<union> set (TestImports p) \<union> set (XTestImports p)}"

text \<open>A set of identifiers is closed when every importer of a member is a member.\<close>

definition closed_under_imported_by :: "Package list \<Rightarrow> string set \<Rightarrow> bool" where
  "closed_under_imported_by pkgs T \<longleftrightarrow>
     (\<forall>p \<in> set pkgs. \<forall>x \<in> set (Imports p) \<union> set (TestImports p) \<union> set (XTestImports p).
        x \<in> T \<longrightarrow> ImportPath p \<in> T)"

text \<open>The identifiers of a list of change records, and of a list of affected units.\<close>

definition change_ids :: "Change list \<Rightarrow> string set" where
  "change_ids cs = PackageName ` set cs"

definition affected_paths :: "AffectedPackage list \<Rightarrow> string set" where
  "affected_paths out = ap_ImportPath ` set out"

text \<open>A list of change records read as a mapping from identifier to reason list.\<close>

definition as_mapping :: "Change list \<Rightarrow> string \<rightharpoonup> string list" where
  "as_mapping cs = map_of (map (\<lambda>c. (PackageName c, Reasons c)) cs)"

text \<open>The absolute paths of the source files of a unit, as \<open>mapPackagesByFile\<close> forms them.\<close>

definition unit_files :: "env \<Rightarrow> Package \<Rightarrow> string set" where
  "unit_files e p = set (map (filepath_Join e (Dir p)) (GoFiles p))"

text \<open>The inventory's guarantee that a source file belongs to one unit only.\<close>

definition files_owned_once :: "env \<Rightarrow> Package list \<Rightarrow> bool" where
  "files_owned_once e pkgs \<longleftrightarrow>
     (\<forall>p \<in> set pkgs. \<forall>q \<in> set pkgs.
        unit_files e p \<inter> unit_files e q \<noteq> {} \<longrightarrow> ImportPath p = ImportPath q)"

text \<open>
  The calls of a stretch of trace that failed, given the calls made before it.
\<close>

fun failed_calls :: "env \<Rightarrow> call list \<Rightarrow> call list \<Rightarrow> call list" where
  "failed_calls e tr [] = []"
| "failed_calls e tr (c # cs) =
     (case respond e tr c of Inl _ \<Rightarrow> [c] | Inr _ \<Rightarrow> []) @ failed_calls e (tr @ [c]) cs"

section \<open>Auxiliary notions of the proofs\<close>

text \<open>The edges stored in a \<open>dependents\<close> map.\<close>

definition dep_edges :: "dep_map \<Rightarrow> (string \<times> string) set" where
  "dep_edges deps = {(x, y). y \<in> set (dep_lookup deps x)}"

text \<open>Everything reachable from the change records of a report along \<open>imported_by\<close>.\<close>

definition affected_ids :: "Report \<Rightarrow> string set" where
  "affected_ids report = (imported_by (AllPackages report))\<^sup>* `` change_ids (Changes report)"

text \<open>The element that \<open>propagateAffectedPackages\<close> appends to \<open>out\<close> for \<open>pkg\<close>.\<close>

definition affected_unit :: "Report \<Rightarrow> string \<Rightarrow> AffectedPackage" where
  "affected_unit report pkg =
     \<lparr>ap_ImportPath = pkg,
      ap_Indirect = (\<not> strings_HasPrefix pkg (Path (Module (GoMod report))))\<rparr>"

text \<open>The reasons of the records of \<open>L\<close> for the identifier \<open>k\<close>, in the order of \<open>L\<close>.\<close>

definition reasons_for :: "Change list \<Rightarrow> string \<Rightarrow> string list" where
  "reasons_for L k = concat (map Reasons (filter (\<lambda>c. PackageName c = k) L))"

text \<open>The record into which the records of \<open>L\<close> for the identifier \<open>k\<close> are merged.\<close>

definition merged :: "Change list \<Rightarrow> string \<Rightarrow> Change" where
  "merged L k = \<lparr>PackageName = k, Reasons = reasons_for L k\<rparr>"

text \<open>The merging loop and the final \<open>range\<close> common to \<open>unifyChanges\<close> and
  \<open>affectedPackagesByFileChanges\<close>, ranging at site \<open>i\<close>.\<close>

definition group_changes :: "site \<Rightarrow> range_order \<Rightarrow> Change list \<Rightarrow> Change list" where
  "group_changes i rng L =
     (let unified = fold unify_step L []
      in map (change_at unified) (rng i (map_keys unified)))"

text \<open>The single-reason records that the loop of \<open>affectedPackagesByFileChanges\<close> merges:
  one for each changed file that \<open>pkgMap\<close> knows.\<close>

definition file_changes :: "(string \<times> string) list \<Rightarrow> string list \<Rightarrow> Change list" where
  "file_changes pkgMap files =
     concat (map (\<lambda>f. case map_of pkgMap f of
                          None \<Rightarrow> []
                        | Some pkg \<Rightarrow> [\<lparr>PackageName = pkg, Reasons = [file_reason f]\<rparr>]) files)"

text \<open>
  The trace \<open>tr'\<close> extends \<open>tr\<close>, and every call of the extension that failed is in \<open>T\<close>.
\<close>

definition clean :: "env \<Rightarrow> call set \<Rightarrow> call list \<Rightarrow> call list \<Rightarrow> bool" where
  "clean e T tr tr' \<longleftrightarrow> (\<exists>new. tr' = tr @ new \<and> set (failed_calls e tr new) \<subseteq> T)"

text \<open>The report that \<open>Changes\<close> assembles from the results of its five stages.\<close>

definition assemble ::
  "env \<Rightarrow> range_order \<Rightarrow> GoMod \<Rightarrow> Package list \<Rightarrow> string list \<Rightarrow> Change list \<Rightarrow> Change list \<Rightarrow> Report" where
  "assemble e rng gomod allPackages dirtyFiles byMod byExternal =
     (let report = zero_Report\<lparr>GoMod := gomod, AllPackages := allPackages, DirtyFiles := dirtyFiles\<rparr>;
          changes = (affectedPackagesByFileChanges e rng report @ byMod) @ byExternal;
          report = report\<lparr>Changes := unifyChanges rng changes\<rparr>
      in report\<lparr>AffectedPackages := propagateAffectedPackages rng report\<rparr>)"

section \<open>Example inputs\<close>

definition unit :: "string \<Rightarrow> string list \<Rightarrow> Package" where
  "unit path imports =
     \<lparr>Dir = ''/r/'' @ path, GoFiles = [''a.go'', ''b.go''], ImportPath = path, Imports = imports,
      TestImports = [], XTestImports = [], Deps = []\<rparr>"

definition manifest :: "string \<Rightarrow> (string \<times> string) list \<Rightarrow> GoMod" where
  "manifest path reqs =
     \<lparr>Module = \<lparr>Path = path, Version = [], Indirect = False\<rparr>, Go = ''1.22'',
      Require = map (\<lambda>(p, v). \<lparr>Path = p, Version = v, Indirect = False\<rparr>) reqs,
      Exclude = [], Replace = [], Tool = []\<rparr>"

text \<open>
  Module \<open>m\<close>; unit \<open>m/a\<close> has no imports, \<open>m/b\<close> imports \<open>m/a\<close>, \<open>m/c\<close> imports \<open>m/b\<close>,
  \<open>m/d\<close> has no imports; \<open>m/a\<close> is changed.
\<close>

definition chain_report :: Report where
  "chain_report =
     \<lparr>GoMod = manifest ''m'' [], DirtyFiles = [''/r/m/a/a.go''],
      AllPackages = [unit ''m/a'' [], unit ''m/b'' [''m/a''], unit ''m/c'' [''m/b''],
                     unit ''m/d'' []],
      AffectedPackages = [],
      Changes = [\<lparr>PackageName = ''m/a'', Reasons = [file_reason ''/r/m/a/a.go'']\<rparr>]\<rparr>"

text \<open>
  The chain above with one more unit: \<open>m/e\<close> imports \<open>fmt\<close> and \<open>m/d\<close>, neither of which is
  changed or imports anything changed, and nothing imports \<open>m/e\<close>.
\<close>

definition leaf_report :: Report where
  "leaf_report =
     \<lparr>GoMod = manifest ''m'' [], DirtyFiles = [''/r/m/a/a.go''],
      AllPackages = [unit ''m/a'' [], unit ''m/b'' [''m/a''], unit ''m/c'' [''m/b''],
                     unit ''m/d'' [], unit ''m/e'' [''fmt'', ''m/d'']],
      AffectedPackages = [],
      Changes = [\<lparr>PackageName = ''m/a'', Reasons = [file_reason ''/r/m/a/a.go'']\<rparr>]\<rparr>"

text \<open>
  Module \<open>example.com/app\<close>, whose manifest requires the module \<open>example.com/app-utils\<close>;
  the version of that requirement has changed.
\<close>

definition sibling_report :: Report where
  "sibling_report =
     \<lparr>GoMod = manifest ''example.com/app'' [(''example.com/app-utils'', ''v1.1.0'')],
      DirtyFiles = [],
      AllPackages = [unit ''example.com/app/cmd'' [''example.com/app-utils'']],
      AffectedPackages = [],
      Changes = [\<lparr>PackageName = ''example.com/app-utils'',
                  Reasons = [module_reason ''example.com/app-utils'']\<rparr>]\<rparr>"

text \<open>
  An environment for the project of module \<open>m\<close> at \<open>/r\<close>: unit \<open>m/x\<close> imports \<open>ext/lib\<close>, unit
  \<open>m/y\<close> imports \<open>m/x\<close>. The baseline requires \<open>ext/lib\<close> at \<open>v1.0.0\<close>, \<open>old/lib\<close> and
  \<open>kept/lib\<close>; the working tree requires \<open>ext/lib\<close> at \<open>v1.1.0\<close>, \<open>kept/lib\<close> at the same
  version and \<open>new/lib\<close>. One file of \<open>m/y\<close> and a file outside every unit have changed; the
  baseline has no \<open>go.sum\<close>, so that \<open>git show main:go.sum\<close> fails. The standard-library
  parameters are given for ASCII input.
\<close>

definition base_manifest :: GoMod where
  "base_manifest =
     manifest ''m'' [(''ext/lib'', ''v1.0.0''), (''old/lib'', ''v0.1.0''), (''kept/lib'', ''v2.0.0'')]"

definition current_manifest :: GoMod where
  "current_manifest =
     manifest ''m'' [(''ext/lib'', ''v1.1.0''), (''kept/lib'', ''v2.0.0''), (''new/lib'', ''v0.3.0'')]"

definition lf :: string where
  "lf = [CHR 0x0A]"

definition example_respond :: "call list \<Rightarrow> call \<Rightarrow> error + string" where
  "example_respond tr c =
     (case c of
        WriteFile name data \<Rightarrow> Inr []
      | Exec argv \<Rightarrow>
          if argv = [''go'', ''mod'', ''edit'', ''-json'', ''/r/go.mod''] then Inr ''CURRENT''
          else if argv = [''go'', ''mod'', ''edit'', ''-json'', ''/tmp/go.mod.base''] then Inr ''BASE''
          else if argv = [''go'', ''list'', ''-json'', ''./...''] then Inr ''UNITS''
          else if argv = [''git'', ''diff'', ''--name-only'', ''main'']
            then Inr (''m/y/a.go'' @ lf @ ''tools/gen.go'' @ lf @ ''go.mod'' @ lf)
          else if argv = [''git'', ''diff'', ''--name-only'', ''main'', ''--'', ''go.mod'']
            then Inr (''go.mod'' @ lf)
          else if argv = [''git'', ''show'', ''main:go.mod''] then Inr ''module m''
          else if argv = [''go'', ''list'', ''-m'', ''all'']
            then Inr (''m'' @ lf @ ''ext/lib v1.1.0'' @ lf @ ''kept/lib v2.0.0'' @ lf
                      @ ''new/lib v0.3.0'' @ lf)
          else if argv = [''go'', ''list'', ''-m'', ''-modfile=/tmp/go.base.mod'', ''all'']
            then Inr (''m'' @ lf @ ''ext/lib v1.0.0'' @ lf @ ''old/lib v0.1.0'' @ lf
                      @ ''kept/lib v2.0.0'' @ lf)
          else Inl (ExternalError ''exit status 128''))"

fun fields_from :: "string \<Rightarrow> string \<Rightarrow> string list" where
  "fields_from w [] = (if w = [] then [] else [w])"
| "fields_from w (c # cs) =
     (if c = CHR '' '' then (if w = [] then fields_from [] cs else w # fields_from [] cs)
      else fields_from (w @ [c]) cs)"

definition ascii_fields :: "string \<Rightarrow> string list" where
  "ascii_fields s = fields_from [] s"

definition ascii_trim :: "string \<Rightarrow> string" where
  "ascii_trim s =
     rev (dropWhile (\<lambda>c. c = CHR '' '' \<or> c = CHR 0x0A)
            (rev (dropWhile (\<lambda>c. c = CHR '' '' \<or> c = CHR 0x0A) s)))"

definition example_env :: env where
  "example_env =
     \<lparr>respond = example_respond,
      json_Unmarshal_GoMod =
        (\<lambda>s. if s = ''CURRENT'' then Inr current_manifest
              else if s = ''BASE'' then Inr base_manifest
              else Inl (ExternalError ''unexpected end of JSON input'')),
      json_Decode_Packages =
        (\<lambda>s. if s = ''UNITS'' then Inr [unit ''m/x'' [''ext/lib''], unit ''m/y'' [''m/x'']]
              else Inl (ExternalError ''unexpected end of JSON input'')),
      filepath_Abs = (\<lambda>p. Inr (''/r/'' @ p)),
      filepath_Join = (\<lambda>dir file. dir @ ''/'' @ file),
      strings_Fields = ascii_fields,
      strings_TrimSpace = ascii_trim,
      os_TempDir = ''/tmp''\<rparr>"

definition example_rippler :: Rippler where
  "example_rippler = \<lparr>goModFilePath = ''/r/go.mod'', baseBranch = ''main''\<rparr>"

text \<open>The same environment with an unchanged manifest.\<close>

definition quiet_env :: env where
  "quiet_env =
     example_env\<lparr>respond :=
       (\<lambda>tr c. if c = Exec [''git'', ''diff'', ''--name-only'', ''main'', ''--'', ''go.mod'']
                then Inr [] else example_respond tr c)\<rparr>"

text \<open>The same environment with a toolchain that cannot list the units.\<close>

definition broken_env :: env where
  "broken_env =
     example_env\<lparr>respond :=
       (\<lambda>tr c. if c = Exec [''go'', ''list'', ''-json'', ''./...'']
                then Inl (ExternalError ''exit status 1'') else example_respond tr c)\<rparr>"

text \<open>Three change records, two of them for \<open>m/x\<close>.\<close>

definition example_changes :: "Change list" where
  "example_changes =
     [\<lparr>PackageName = ''m/x'', Reasons = [''r1'']\<rparr>, \<lparr>PackageName = ''ext/lib'', Reasons = [''r2'']\<rparr>,
      \<lparr>PackageName = ''m/x'', Reasons = [''r3'', ''r4'']\<rparr>]"

text \<open>
  Units \<open>m/x\<close>, \<open>m/y\<close> and \<open>m/z\<close> with files \<open>a.go\<close> and \<open>b.go\<close> each; two files of \<open>m/y\<close>, one
  of \<open>m/x\<close> and a file outside every unit have changed.
\<close>

definition files_report :: Report where
  "files_report =
     \<lparr>GoMod = manifest ''m'' [],
      DirtyFiles = [''/r/m/y/b.go'', ''/r/tools/gen.go'', ''/r/m/x/a.go'', ''/r/m/y/a.go''],
      AllPackages = [unit ''m/x'' [], unit ''m/y'' [''m/x''], unit ''m/z'' []],
      AffectedPackages = [], Changes = []\<rparr>"

section \<open>Lemmas\<close>

subsection \<open>Sets, ranges and sorting\<close>

lemma valid_ascending_range: "valid_range ascending_range"
  by (simp add: valid_range_def ascending_range_def)

lemma valid_descending_range: "valid_range descending_range"
  by (simp add: valid_range_def descending_range_def)

lemma strings_Compare_less: "strings_Compare a b < 0 \<longleftrightarrow> a < b"
  by (induction a b rule: strings_Compare.induct) (auto simp: less_char_def)

lemma strings_Compare_eq: "strings_Compare a b = 0 \<longleftrightarrow> a = b"
  by (induction a b rule: strings_Compare.induct) auto

lemma strings_Compare_le: "strings_Compare a b \<le> 0 \<longleftrightarrow> a \<le> b"
  using strings_Compare_less [of a b] strings_Compare_eq [of a b]
  by (auto simp: order.order_iff_strict)

lemma insert_by_insort_key:
  "insert_by (\<lambda>a b. strings_Compare (f a) (f b)) x xs = insort_key f x xs"
  by (induction xs) (simp_all add: strings_Compare_le)

lemma SortFunc_sort_key:
  "slices_SortFunc (\<lambda>a b. strings_Compare (f a) (f b)) xs = sort_key f xs"
  by (induction xs) (simp_all add: slices_SortFunc_def insert_by_insort_key)

lemma filter_same_key:
  "distinct (map f zs) \<Longrightarrow> k \<in> set zs \<Longrightarrow> filter (\<lambda>x. f k = f x) zs = [k]"
proof (induction zs)
  case Nil
  then show ?case by simp
next
  case (Cons z zs)
  show ?case
  proof (cases "k = z")
    case True
    with Cons.prems(1) have "filter (\<lambda>x. f k = f x) zs = []"
      by (auto simp: filter_empty_conv)
    with True show ?thesis by simp
  next
    case False
    with Cons.prems have k: "k \<in> set zs" by simp
    from Cons.prems(1) have "f z \<notin> f ` set zs" by simp
    with k have "f k \<noteq> f z" by (metis imageI)
    with k Cons show ?thesis by simp
  qed
qed

lemma sorted_permutation_unique:
  assumes "distinct (map f xs)" and "mset ys = mset xs"
    and "sorted_wrt (\<lambda>a b. strings_Compare (f a) (f b) \<le> 0) ys"
  shows "slices_SortFunc (\<lambda>a b. strings_Compare (f a) (f b)) xs = ys"
proof -
  from assms(2) have s: "set ys = set xs" by (rule mset_eq_setD)
  from assms(2) have "mset (map f ys) = mset (map f xs)" by simp
  with assms(1) have d: "distinct (map f ys)" by (metis mset_eq_imp_distinct_iff)
  have "sorted (map f ys)"
    using assms(3) by (simp add: sorted_wrt_map strings_Compare_le)
  moreover have "filter (\<lambda>x. f k = f x) ys = filter (\<lambda>x. f k = f x) xs" if "k \<in> set ys" for k
    using that s filter_same_key [OF d] filter_same_key [OF assms(1)] by simp
  ultimately have "sort_key f xs = ys"
    using assms(2) by (intro properties_for_sort_key)
  then show ?thesis by (simp add: SortFunc_sort_key)
qed

lemma valid_range_set: "valid_range rng \<Longrightarrow> finite S \<Longrightarrow> set (rng i S) = S"
  by (simp add: valid_range_def)

lemma valid_range_distinct: "valid_range rng \<Longrightarrow> finite S \<Longrightarrow> distinct (rng i S)"
  by (simp add: valid_range_def)

lemma sort_key_of_keys:
  fixes mk :: "string \<Rightarrow> 'a" and f :: "'a \<Rightarrow> string"
  assumes inv: "\<And>k. f (mk k) = k" and d: "distinct ks"
  shows "sort_key f (map mk ks) = map mk (sorted_list_of_set (set ks))"
proof -
  let ?ys = "sort_key f (map mk ks)"
  have fin: "finite (set ks)" by simp
  have m: "mset (map f ?ys) = mset ks"
    by (simp add: inv multiset.map_comp comp_def)
  then have "set (map f ?ys) = set ks" by (metis set_mset_mset)
  moreover have "distinct (map f ?ys)" using m d by (metis mset_eq_imp_distinct_iff)
  moreover have "sorted (map f ?ys)" by (rule sorted_sort_key)
  ultimately have keys: "map f ?ys = sorted_list_of_set (set ks)"
    by (metis fin sorted_list_of_set.idem_if_sorted_distinct)
  have "\<And>y. y \<in> set ?ys \<Longrightarrow> (mk \<circ> f) y = y" by (auto simp: inv)
  then have "map (mk \<circ> f) ?ys = ?ys" by (rule map_idI)
  then have "map mk (map f ?ys) = ?ys" by simp
  with keys show ?thesis by simp
qed

subsection \<open>The reverse import graph\<close>

lemma dep_lookup_values: "set (dep_lookup deps k) \<subseteq> dep_values deps"
proof (cases "map_of deps k")
  case None
  then show ?thesis by (simp add: dep_lookup_def)
next
  case (Some ds)
  then have "(k, ds) \<in> set deps" by (rule map_of_SomeD)
  with Some show ?thesis by (force simp: dep_lookup_def dep_values_def)
qed

lemma finite_dep_values: "finite (dep_values deps)"
  by (simp add: dep_values_def)

lemma dep_lookup_add_dependent:
  "dep_lookup (add_dependent path imp deps) k =
     (if k = imp then dep_lookup deps imp @ [path] else dep_lookup deps k)"
  by (simp add: add_dependent_def dep_lookup_def update_conv')

lemma dep_lookup_fold_add:
  "set (dep_lookup (fold (add_dependent path) imps deps) k) =
     set (dep_lookup deps k) \<union> (if k \<in> set imps then {path} else {})"
  by (induction imps arbitrary: deps) (auto simp: dep_lookup_add_dependent)

lemma dep_lookup_fold_pkgs:
  "set (dep_lookup (fold (\<lambda>p deps. fold (add_dependent (ImportPath p)) (fullPackageImports p) deps) pkgs deps) k) =
     set (dep_lookup deps k) \<union> {ImportPath p | p. p \<in> set pkgs \<and> k \<in> set (fullPackageImports p)}"
  by (induction pkgs arbitrary: deps) (auto simp: dep_lookup_fold_add)

lemma dep_lookup_build_dependents:
  "set (dep_lookup (build_dependents pkgs) k) =
     {ImportPath p | p. p \<in> set pkgs \<and> k \<in> set (fullPackageImports p)}"
  by (simp add: build_dependents_def dep_lookup_fold_pkgs) (simp add: dep_lookup_def)

lemma dep_edges_build_dependents: "dep_edges (build_dependents pkgs) = imported_by pkgs"
  by (auto simp: dep_edges_def imported_by_def dep_lookup_build_dependents fullPackageImports_def)

lemma visit_sets:
  "visit ds (m, q) = (m', q') \<Longrightarrow> m' = m \<union> set ds \<and> set q' = set q \<union> (set ds - m)"
  by (induction ds arbitrary: m q) (auto split: if_splits)

lemma bfs_closure:
  "set q \<subseteq> m \<Longrightarrow> \<forall>x \<in> m - set q. dep_edges deps `` {x} \<subseteq> m \<Longrightarrow>
     bfs deps m q = (dep_edges deps)\<^sup>* `` m"
proof (induction deps m q rule: bfs.induct)
  case (1 deps m)
  then have "dep_edges deps `` m \<subseteq> m" by auto
  then have "(dep_edges deps)\<^sup>* `` m \<subseteq> m" by (rule Image_closed_trancl[THEN equalityD1])
  then show ?case by auto
next
  case (2 deps m c q)
  obtain m' q' where v: "visit (dep_lookup deps c) (m, q) = (m', q')"
    by (cases "visit (dep_lookup deps c) (m, q)")
  from visit_sets [OF v] have m': "m' = m \<union> set (dep_lookup deps c)"
    and q': "set q' = set q \<union> (set (dep_lookup deps c) - m)" by simp_all
  have succ: "dep_edges deps `` {c} = set (dep_lookup deps c)"
    by (auto simp: dep_edges_def)
  from "2.prems" have c: "c \<in> m" by simp
  have sub: "set q' \<subseteq> m'" using "2.prems"(1) m' q' by auto
  have inv: "\<forall>x \<in> m' - set q'. dep_edges deps `` {x} \<subseteq> m'"
  proof
    fix x assume x: "x \<in> m' - set q'"
    with m' q' have xm: "x \<in> m" and xq: "x \<notin> set q" by auto
    show "dep_edges deps `` {x} \<subseteq> m'"
    proof (cases "x = c")
      case True
      with succ m' show ?thesis by auto
    next
      case False
      with xm xq "2.prems"(2) have "dep_edges deps `` {x} \<subseteq> m" by auto
      with m' show ?thesis by auto
    qed
  qed
  have "bfs deps m (c # q) = bfs deps m' q'" using v by simp
  also have "\<dots> = (dep_edges deps)\<^sup>* `` m'"
    using "2.IH" [OF v [symmetric] sub inv] .
  also have "\<dots> = (dep_edges deps)\<^sup>* `` m"
  proof
    show "(dep_edges deps)\<^sup>* `` m \<subseteq> (dep_edges deps)\<^sup>* `` m'" using m' by auto
    have "m' \<subseteq> (dep_edges deps)\<^sup>* `` m"
    proof
      fix y assume "y \<in> m'"
      with m' succ consider "y \<in> m" | "(c, y) \<in> dep_edges deps" by auto
      then show "y \<in> (dep_edges deps)\<^sup>* `` m"
        using c by cases auto
    qed
    then have "(dep_edges deps)\<^sup>* `` m' \<subseteq> (dep_edges deps)\<^sup>* `` ((dep_edges deps)\<^sup>* `` m)"
      by (rule Image_mono [OF subset_refl])
    then show "(dep_edges deps)\<^sup>* `` m' \<subseteq> (dep_edges deps)\<^sup>* `` m"
      by (auto intro: rtrancl_trans)
  qed
  finally show ?case .
qed


lemma finite_change_ids [simp]: "finite (change_ids cs)"
  by (simp add: change_ids_def)

lemma fold_insert_names:
  "fold (\<lambda>c m. insert (PackageName c) m) cs M = M \<union> PackageName ` set cs"
  by (induction cs arbitrary: M) auto

lemma dep_edges_Image_subset: "(dep_edges deps)\<^sup>* `` m \<subseteq> m \<union> dep_values deps"
proof
  fix y assume "y \<in> (dep_edges deps)\<^sup>* `` m"
  then obtain x where "x \<in> m" "(x, y) \<in> (dep_edges deps)\<^sup>*" by auto
  from this(2) this(1) show "y \<in> m \<union> dep_values deps"
    by (induction rule: rtrancl_induct) (use dep_lookup_values in \<open>auto simp: dep_edges_def\<close>)
qed

lemma finite_reachable: "finite m \<Longrightarrow> finite ((dep_edges deps)\<^sup>* `` m)"
  by (rule finite_subset [OF dep_edges_Image_subset]) (simp add: finite_dep_values)

lemma finite_affected_ids: "finite (affected_ids report)"
  unfolding affected_ids_def dep_edges_build_dependents [symmetric]
  by (rule finite_reachable) simp

lemma propagate_sorted_closure:
  assumes "valid_range rng"
  shows "propagateAffectedPackages rng report =
           map (affected_unit report) (sorted_list_of_set (affected_ids report))"
proof -
  let ?S = "change_ids (Changes report)"
  let ?deps = "build_dependents (AllPackages report)"
  have S: "fold (\<lambda>c m. insert (PackageName c) m) (Changes report) {} = ?S"
    by (simp add: fold_insert_names change_ids_def)
  have q: "set (rng RangeQueue ?S) = ?S" using assms by (simp add: valid_range_set)
  have b: "bfs ?deps ?S (rng RangeQueue ?S) = affected_ids report"
    unfolding affected_ids_def dep_edges_build_dependents [symmetric]
    by (rule bfs_closure) (simp_all add: q)
  have o: "set (rng RangeOut (affected_ids report)) = affected_ids report"
    and d: "distinct (rng RangeOut (affected_ids report))"
    using assms finite_affected_ids by (simp_all add: valid_range_set valid_range_distinct)
  have "propagateAffectedPackages rng report =
          sort_key ap_ImportPath (map (affected_unit report) (rng RangeOut (affected_ids report)))"
    unfolding propagateAffectedPackages_def Let_def S b SortFunc_sort_key affected_unit_def ..
  also have "\<dots> = map (affected_unit report) (sorted_list_of_set (affected_ids report))"
    using sort_key_of_keys [of ap_ImportPath "affected_unit report", OF _ d]
    by (simp add: o affected_unit_def)
  finally show ?thesis .
qed


subsection \<open>Propagation\<close>

lemma affected_paths_propagate:
  "valid_range rng \<Longrightarrow> affected_paths (propagateAffectedPackages rng report) = affected_ids report"
  by (simp add: propagate_sorted_closure affected_paths_def image_image affected_unit_def
      finite_affected_ids)

lemma closed_reachable:
  "closed_under_imported_by pkgs ((imported_by pkgs)\<^sup>* `` S)"
  unfolding closed_under_imported_by_def
proof (intro ballI impI)
  fix p x
  assume p: "p \<in> set pkgs"
    and x: "x \<in> set (Imports p) \<union> set (TestImports p) \<union> set (XTestImports p)"
    and r: "x \<in> (imported_by pkgs)\<^sup>* `` S"
  from p x have "(x, ImportPath p) \<in> imported_by pkgs"
    by (auto simp: imported_by_def)
  with r show "ImportPath p \<in> (imported_by pkgs)\<^sup>* `` S"
    by (auto intro: rtrancl_into_rtrancl)
qed

lemma reachable_least:
  assumes "S \<subseteq> T" and "closed_under_imported_by pkgs T"
  shows "(imported_by pkgs)\<^sup>* `` S \<subseteq> T"
proof
  fix y assume "y \<in> (imported_by pkgs)\<^sup>* `` S"
  then obtain x where "x \<in> S" and "(x, y) \<in> (imported_by pkgs)\<^sup>*" by auto
  from this(2) show "y \<in> T"
  proof (induction rule: rtrancl_induct)
    case base
    with \<open>x \<in> S\<close> assms(1) show ?case by auto
  next
    case (step y z)
    from step.hyps(2) obtain p where "p \<in> set pkgs" "z = ImportPath p"
      "y \<in> set (Imports p) \<union> set (TestImports p) \<union> set (XTestImports p)"
      by (auto simp: imported_by_def)
    with step.IH assms(2) show ?case
      unfolding closed_under_imported_by_def by blast
  qed
qed

text \<open>
  C2. Whatever order the runtime ranges over the maps in, the identifiers of the list
  returned by \<open>propagateAffectedPackages\<close> are exactly those reachable from the
  identifiers of the change records by zero or more "is imported by" edges (over
  ordinary, test-internal and test-external imports); this set contains the change set,
  is closed under "is imported by", and is included in every set with these two
  properties.
\<close>

theorem propagation_is_reverse_closure:
  assumes "valid_range rng"
  shows "affected_paths (propagateAffectedPackages rng report) =
           (imported_by (AllPackages report))\<^sup>* `` change_ids (Changes report)
       \<and> change_ids (Changes report) \<subseteq> affected_paths (propagateAffectedPackages rng report)
       \<and> closed_under_imported_by (AllPackages report)
           (affected_paths (propagateAffectedPackages rng report))
       \<and> (\<forall>T. change_ids (Changes report) \<subseteq> T \<and> closed_under_imported_by (AllPackages report) T
              \<longrightarrow> affected_paths (propagateAffectedPackages rng report) \<subseteq> T)"
proof -
  have eq: "affected_paths (propagateAffectedPackages rng report) =
      (imported_by (AllPackages report))\<^sup>* `` change_ids (Changes report)"
    using assms by (simp add: affected_paths_propagate affected_ids_def)
  show ?thesis
    unfolding eq using closed_reachable reachable_least by auto
qed

theorem propagation_is_reverse_closure_witness:
  "valid_range ascending_range
   \<and> (imported_by (AllPackages chain_report))\<^sup>* `` change_ids (Changes chain_report) =
       {''m/a'', ''m/b'', ''m/c''}
   \<and> closed_under_imported_by (AllPackages chain_report) {''m/a'', ''m/b'', ''m/c''}"
proof -
  have v: "affected_paths (propagateAffectedPackages ascending_range chain_report) =
      {''m/a'', ''m/b'', ''m/c''}"
    by code_simp
  note t = propagation_is_reverse_closure [OF valid_ascending_range, of chain_report,
      unfolded v]
  from t have a: "{''m/a'', ''m/b'', ''m/c''} =
      (imported_by (AllPackages chain_report))\<^sup>* `` change_ids (Changes chain_report)"
    by (rule conjunct1)
  from t have c: "closed_under_imported_by (AllPackages chain_report) {''m/a'', ''m/b'', ''m/c''}"
    by (elim conjE)
  from valid_ascending_range a [symmetric] c show ?thesis by (intro conjI)
qed

text \<open>
  C7. Whatever order the runtime ranges over the maps in, the list returned by
  \<open>propagateAffectedPackages\<close> is strictly ascending under \<open>strings.Compare\<close> (byte-wise
  lexicographic order) of the import paths, and so no import path occurs twice.
\<close>

theorem affected_packages_strictly_ascending:
  assumes "valid_range rng"
  shows "sorted_wrt (\<lambda>a b. strings_Compare (ap_ImportPath a) (ap_ImportPath b) < 0)
           (propagateAffectedPackages rng report)
       \<and> distinct (map ap_ImportPath (propagateAffectedPackages rng report))"
proof -
  have m: "map ap_ImportPath (propagateAffectedPackages rng report) =
      sorted_list_of_set (affected_ids report)"
    using assms by (simp add: propagate_sorted_closure comp_def affected_unit_def)
  have "sorted_wrt (<) (map ap_ImportPath (propagateAffectedPackages rng report))"
    unfolding m by (rule sorted_list_of_set.strict_sorted_key_list_of_set)
  then have "sorted_wrt (\<lambda>a b. ap_ImportPath a < ap_ImportPath b)
      (propagateAffectedPackages rng report)"
    by (simp add: sorted_wrt_map)
  moreover have "distinct (map ap_ImportPath (propagateAffectedPackages rng report))"
    unfolding m by simp
  ultimately show ?thesis by (simp add: strings_Compare_less)
qed

theorem affected_packages_strictly_ascending_witness:
  "valid_range descending_range
   \<and> map ap_ImportPath (propagateAffectedPackages descending_range chain_report) =
       [''m/a'', ''m/b'', ''m/c'']
   \<and> sorted_wrt (\<lambda>a b. strings_Compare (ap_ImportPath a) (ap_ImportPath b) < 0)
       (propagateAffectedPackages descending_range chain_report)
   \<and> distinct (map ap_ImportPath (propagateAffectedPackages descending_range chain_report))"
proof -
  have "map ap_ImportPath (propagateAffectedPackages descending_range chain_report) =
      [''m/a'', ''m/b'', ''m/c'']"
    by code_simp
  with affected_packages_strictly_ascending [OF valid_descending_range, of chain_report]
  show ?thesis by (simp add: valid_descending_range)
qed

text \<open>
  C3, as stated, fails: in the chain \<open>m/c\<close> imports \<open>m/b\<close> imports \<open>m/a\<close> with \<open>m/a\<close>
  changed, the unit \<open>m/c\<close> has an empty dependents list and is not in the change set, and
  it is in the affected set.
\<close>

theorem no_dependents_counterexample:
  "dep_lookup (build_dependents (AllPackages chain_report)) ''m/c'' = []
   \<and> ''m/c'' \<notin> change_ids (Changes chain_report)
   \<and> ''m/c'' \<in> affected_paths (propagateAffectedPackages ascending_range chain_report)"
  by code_simp

text \<open>
  C3, amended. An identifier that is not in the change set, and such that no unit of the
  inventory with that identifier has an ordinary, test-internal or test-external import
  in the final affected set, is not in the final affected set, whether or not its
  dependents list is empty.
\<close>

theorem unit_importing_no_affected_unaffected:
  assumes "valid_range rng"
    and "x \<notin> change_ids (Changes report)"
    and "\<forall>p \<in> set (AllPackages report). ImportPath p = x \<longrightarrow>
           (\<forall>i \<in> set (Imports p) \<union> set (TestImports p) \<union> set (XTestImports p).
              i \<notin> affected_paths (propagateAffectedPackages rng report))"
  shows "x \<notin> affected_paths (propagateAffectedPackages rng report)"
proof
  assume "x \<in> affected_paths (propagateAffectedPackages rng report)"
  note eq = affected_paths_propagate [OF assms(1), of report, unfolded affected_ids_def]
  from \<open>x \<in> affected_paths (propagateAffectedPackages rng report)\<close>
  obtain s where s: "s \<in> change_ids (Changes report)"
    and r: "(s, x) \<in> (imported_by (AllPackages report))\<^sup>*"
    unfolding eq by auto
  from r show False
  proof (cases rule: rtranclE)
    case base
    with s assms(2) show False by simp
  next
    case (step y)
    from step(1) s have "y \<in> affected_paths (propagateAffectedPackages rng report)"
      unfolding eq by auto
    moreover from step(2) obtain p where "p \<in> set (AllPackages report)" "x = ImportPath p"
      "y \<in> set (Imports p) \<union> set (TestImports p) \<union> set (XTestImports p)"
      by (auto simp: imported_by_def)
    ultimately show False using assms(3) by blast
  qed
qed

theorem unit_importing_no_affected_unaffected_witness:
  "valid_range ascending_range
   \<and> ''m/e'' \<notin> change_ids (Changes leaf_report)
   \<and> filter (\<lambda>p. ImportPath p = ''m/e'') (AllPackages leaf_report) = [unit ''m/e'' [''fmt'', ''m/d'']]
   \<and> affected_paths (propagateAffectedPackages ascending_range leaf_report) =
       {''m/a'', ''m/b'', ''m/c''}
   \<and> ''m/e'' \<notin> affected_paths (propagateAffectedPackages ascending_range leaf_report)"
proof -
  have a: "''m/e'' \<notin> change_ids (Changes leaf_report)"
    by (simp add: leaf_report_def change_ids_def)
  have v: "affected_paths (propagateAffectedPackages ascending_range leaf_report) =
      {''m/a'', ''m/b'', ''m/c''}"
    by code_simp
  have b: "\<forall>p \<in> set (AllPackages leaf_report). ImportPath p = ''m/e'' \<longrightarrow>
      (\<forall>i \<in> set (Imports p) \<union> set (TestImports p) \<union> set (XTestImports p).
         i \<notin> affected_paths (propagateAffectedPackages ascending_range leaf_report))"
    unfolding v by (simp add: leaf_report_def unit_def)
  have c: "filter (\<lambda>p. ImportPath p = ''m/e'') (AllPackages leaf_report) =
      [unit ''m/e'' [''fmt'', ''m/d'']]"
    by (simp add: leaf_report_def unit_def)
  from unit_importing_no_affected_unaffected [OF valid_ascending_range a b]
  have "''m/e'' \<notin> affected_paths (propagateAffectedPackages ascending_range leaf_report)" .
  with valid_ascending_range a c v show ?thesis by (intro conjI)
qed

lemma indirect_flag_is_prefix_test:
  assumes "valid_range rng" and "a \<in> set (propagateAffectedPackages rng report)"
  shows "ap_Indirect a \<longleftrightarrow> \<not> strings_HasPrefix (ap_ImportPath a) (Path (Module (GoMod report)))"
  using assms by (auto simp: propagate_sorted_closure affected_unit_def)

text \<open>
  C1. What the code computes: the flag is the negation of a plain string-prefix test
  against the module path, with no path separator. For the module \<open>example.com/app\<close> the
  changed requirement \<open>example.com/app-utils\<close>, which neither equals the module path nor
  starts with \<open>example.com/app/\<close>, is emitted with \<open>Indirect = false\<close>.
\<close>

theorem indirect_flag_sibling_module:
  "propagateAffectedPackages ascending_range sibling_report =
     [\<lparr>ap_ImportPath = ''example.com/app-utils'', ap_Indirect = False\<rparr>,
      \<lparr>ap_ImportPath = ''example.com/app/cmd'', ap_Indirect = False\<rparr>]
   \<and> Path (Module (GoMod sibling_report)) = ''example.com/app''
   \<and> \<not> strings_HasPrefix ''example.com/app-utils'' (''example.com/app'' @ ''/'')
   \<and> ''example.com/app-utils'' \<noteq> ''example.com/app''"
  by code_simp

subsection \<open>Reconciliation\<close>

lemma map_keys_update: "map_keys (AList.update k v m) = insert k (map_keys m)"
  by (simp add: map_keys_def dom_update)

lemma map_keys_dom: "map_keys m = dom (map_of m)"
  by (simp add: map_keys_def dom_map_of_conv_image_fst)

lemma map_of_unify_step:
  "map_of (unify_step c m) =
     (map_of m)(PackageName c \<mapsto>
        (case map_of m (PackageName c) of
           None \<Rightarrow> c
         | Some existing \<Rightarrow> existing\<lparr>Reasons := Reasons existing @ Reasons c\<rparr>))"
  by (simp add: unify_step_def update_conv' split: option.splits)

lemma map_of_fold_unify_step:
  "map_of (fold unify_step L m) k =
     (case map_of m k of
        None \<Rightarrow> if k \<in> change_ids L then Some (merged L k) else None
      | Some c \<Rightarrow> Some (c\<lparr>Reasons := Reasons c @ reasons_for L k\<rparr>))"
proof (induction L arbitrary: m)
  case Nil
  then show ?case by (simp add: change_ids_def reasons_for_def split: option.splits)
next
  case (Cons x L)
  show ?case
    by (cases x)
      (simp add: Cons.IH map_of_unify_step change_ids_def reasons_for_def merged_def
        split: option.splits)
qed

lemma map_of_unified:
  "map_of (fold unify_step L []) k = (if k \<in> change_ids L then Some (merged L k) else None)"
  by (simp add: map_of_fold_unify_step)

lemma map_keys_unified: "map_keys (fold unify_step L []) = change_ids L"
  by (auto simp: map_keys_dom map_of_unified dom_def)

lemma group_changes_eq:
  assumes "valid_range rng"
  shows "group_changes i rng L = map (merged L) (rng i (change_ids L))"
proof -
  have "set (rng i (change_ids L)) = change_ids L"
    using assms by (simp add: valid_range_set)
  then show ?thesis
    by (simp add: group_changes_def map_keys_unified change_at_def map_of_unified)
qed

lemma unifyChanges_group: "unifyChanges rng L = group_changes RangeUnified rng L"
  by (simp add: unifyChanges_def group_changes_def)

lemma change_ids_map_merged: "change_ids (map (merged L) ks) = set ks"
  by (simp add: change_ids_def image_image merged_def)

lemma filter_map_merged:
  "distinct ks \<Longrightarrow> k \<in> set ks \<Longrightarrow>
     filter (\<lambda>c. PackageName c = k) (map (merged L) ks) = [merged L k]"
  by (induction ks) (auto simp: merged_def filter_empty_conv)

lemma merged_idem:
  assumes "distinct ks" and "set ks' \<subseteq> set ks"
  shows "map (merged (map (merged L) ks)) ks' = map (merged L) ks'"
proof (rule map_cong [OF refl])
  fix k assume "k \<in> set ks'"
  with assms(2) have "k \<in> set ks" by auto
  from filter_map_merged [OF assms(1) this, of L]
  show "merged (map (merged L) ks) k = merged L k"
    by (simp add: merged_def reasons_for_def)
qed

lemma as_mapping_map_merged:
  "as_mapping (map (merged L) ks) k = (if k \<in> set ks then Some (reasons_for L k) else None)"
  by (induction ks) (auto simp: as_mapping_def merged_def)

lemma mset_valid_range:
  "valid_range rng \<Longrightarrow> finite S \<Longrightarrow> mset (rng i S) = mset_set S"
  by (metis mset_set_set valid_range_distinct valid_range_set)

text \<open>
  C5. Whatever order the runtime ranges over the maps in, reconciling the output of a
  reconciliation again gives the same mapping: the same set of package identifiers,
  for each identifier the same reason list, and indeed the same records up to their order.
\<close>

theorem unifyChanges_idempotent:
  assumes "valid_range rng" and "valid_range rng'"
  shows "change_ids (unifyChanges rng' (unifyChanges rng L)) = change_ids (unifyChanges rng L)
       \<and> as_mapping (unifyChanges rng' (unifyChanges rng L)) = as_mapping (unifyChanges rng L)
       \<and> mset (unifyChanges rng' (unifyChanges rng L)) = mset (unifyChanges rng L)"
proof -
  let ?K = "change_ids L"
  let ?ks = "rng RangeUnified ?K" and ?ks' = "rng' RangeUnified ?K"
  have ks: "set ?ks = ?K" "distinct ?ks" and ks': "set ?ks' = ?K" "distinct ?ks'"
    using assms by (simp_all add: valid_range_set valid_range_distinct)
  have u: "unifyChanges rng L = map (merged L) ?ks"
    using assms(1) by (simp add: unifyChanges_group group_changes_eq)
  have "unifyChanges rng' (map (merged L) ?ks) = map (merged (map (merged L) ?ks)) ?ks'"
    using assms(2)
    by (simp add: unifyChanges_group group_changes_eq change_ids_map_merged ks)
  also have "\<dots> = map (merged L) ?ks'"
    by (rule merged_idem) (simp_all add: ks ks')
  finally have uu: "unifyChanges rng' (map (merged L) ?ks) = map (merged L) ?ks'" .
  have "mset ?ks' = mset ?ks"
    using assms by (simp add: mset_valid_range)
  then have "mset (map (merged L) ?ks') = mset (map (merged L) ?ks)"
    by simp
  moreover have "as_mapping (map (merged L) ?ks') = as_mapping (map (merged L) ?ks)"
    by (rule ext) (simp add: as_mapping_map_merged ks ks')
  ultimately show ?thesis
    unfolding u uu by (simp add: change_ids_map_merged ks ks')
qed

theorem unifyChanges_idempotent_witness:
  "valid_range ascending_range \<and> valid_range descending_range
   \<and> unifyChanges ascending_range example_changes =
       [\<lparr>PackageName = ''ext/lib'', Reasons = [''r2'']\<rparr>,
        \<lparr>PackageName = ''m/x'', Reasons = [''r1'', ''r3'', ''r4'']\<rparr>]
   \<and> as_mapping (unifyChanges descending_range (unifyChanges ascending_range example_changes)) =
       as_mapping (unifyChanges ascending_range example_changes)
   \<and> mset (unifyChanges descending_range (unifyChanges ascending_range example_changes)) =
       mset (unifyChanges ascending_range example_changes)"
proof -
  have "unifyChanges ascending_range example_changes =
       [\<lparr>PackageName = ''ext/lib'', Reasons = [''r2'']\<rparr>,
        \<lparr>PackageName = ''m/x'', Reasons = [''r1'', ''r3'', ''r4'']\<rparr>]"
    by code_simp
  with unifyChanges_idempotent [OF valid_ascending_range valid_descending_range, of example_changes]
  show ?thesis by (simp add: valid_ascending_range valid_descending_range)
qed

subsection \<open>File changes\<close>

lemma affected_step_unify:
  "affected_step pkgMap f m =
     (case map_of pkgMap f of
        None \<Rightarrow> m
      | Some pkg \<Rightarrow> unify_step \<lparr>PackageName = pkg, Reasons = [file_reason f]\<rparr> m)"
  by (simp add: affected_step_def unify_step_def split: option.splits)

lemma fold_affected_step:
  "fold (affected_step pkgMap) files m = fold unify_step (file_changes pkgMap files) m"
  by (induction files arbitrary: m)
    (simp_all add: file_changes_def affected_step_unify split: option.splits)

lemma affectedPackagesByFileChanges_group:
  "affectedPackagesByFileChanges e rng report =
     group_changes RangeAffected rng
       (file_changes (mapPackagesByFile e (AllPackages report)) (DirtyFiles report))"
  by (simp add: affectedPackagesByFileChanges_def group_changes_def fold_affected_step Let_def)

lemma file_changes_Nil [simp]: "file_changes pkgMap [] = []"
  by (simp add: file_changes_def)

lemma file_changes_Cons [simp]:
  "file_changes pkgMap (f # files) =
     (case map_of pkgMap f of
        None \<Rightarrow> []
      | Some pkg \<Rightarrow> [\<lparr>PackageName = pkg, Reasons = [file_reason f]\<rparr>])
     @ file_changes pkgMap files"
  by (simp add: file_changes_def)

lemma change_ids_file_changes:
  "change_ids (file_changes pkgMap files) = {pkg. \<exists>f \<in> set files. map_of pkgMap f = Some pkg}"
proof (induction files)
  case Nil
  then show ?case by (simp add: change_ids_def)
next
  case (Cons f files)
  have "change_ids (file_changes pkgMap (f # files)) =
      (case map_of pkgMap f of None \<Rightarrow> {} | Some pkg \<Rightarrow> {pkg}) \<union> change_ids (file_changes pkgMap files)"
    by (cases "map_of pkgMap f") (simp_all add: change_ids_def)
  also have "\<dots> = {pkg. \<exists>f \<in> set (f # files). map_of pkgMap f = Some pkg}"
    unfolding Cons.IH by (cases "map_of pkgMap f") auto
  finally show ?case .
qed

lemma reasons_for_file_changes:
  "reasons_for (file_changes pkgMap files) k =
     map file_reason (filter (\<lambda>f. map_of pkgMap f = Some k) files)"
proof (induction files)
  case Nil
  then show ?case by (simp add: reasons_for_def)
next
  case (Cons f files)
  then show ?case
    by (cases "map_of pkgMap f") (simp_all add: reasons_for_def)
qed

lemma file_changes_filter:
  assumes "\<And>f. \<not> P f \<Longrightarrow> map_of pkgMap f = None"
  shows "file_changes pkgMap (filter P files) = file_changes pkgMap files"
  by (induction files) (simp_all add: assms)

lemma map_of_fold_files:
  "map_of (fold (\<lambda>g result. AList.update (j g) v result) gs m) f =
     (if f \<in> j ` set gs then Some v else map_of m f)"
  by (induction gs arbitrary: m) (auto simp: update_conv')

lemma map_of_fold_units:
  "map_of (fold (\<lambda>p result.
             fold (\<lambda>goFile result.
                     AList.update (filepath_Join e (Dir p) goFile) (ImportPath p) result)
               (GoFiles p) result) pkgs m) f = Some k \<Longrightarrow>
   map_of m f = Some k \<or> (\<exists>p \<in> set pkgs. ImportPath p = k \<and> f \<in> unit_files e p)"
proof (induction pkgs arbitrary: m)
  case Nil
  then show ?case by simp
next
  case (Cons p pkgs)
  from Cons.IH [OF Cons.prems [simplified]] show ?case
    by (auto simp: map_of_fold_files unit_files_def split: if_splits)
qed

lemma dom_fold_units:
  "f \<in> dom (map_of m) \<or> (\<exists>p \<in> set pkgs. f \<in> unit_files e p) \<Longrightarrow>
   f \<in> dom (map_of (fold (\<lambda>p result.
             fold (\<lambda>goFile result.
                     AList.update (filepath_Join e (Dir p) goFile) (ImportPath p) result)
               (GoFiles p) result) pkgs m))"
proof (induction pkgs arbitrary: m)
  case Nil
  then show ?case by simp
next
  case (Cons p pkgs)
  let ?m' = "fold (\<lambda>goFile result.
      AList.update (filepath_Join e (Dir p) goFile) (ImportPath p) result) (GoFiles p) m"
  from Cons.prems have "f \<in> dom (map_of ?m') \<or> (\<exists>p \<in> set pkgs. f \<in> unit_files e p)"
    by (auto simp: map_of_fold_files unit_files_def dom_def)
  from Cons.IH [OF this] show ?case by simp
qed

lemma pkgMap_owner:
  assumes "files_owned_once e pkgs"
  shows "map_of (mapPackagesByFile e pkgs) f = Some k \<longleftrightarrow>
           (\<exists>p \<in> set pkgs. ImportPath p = k \<and> f \<in> unit_files e p)"
proof
  assume "map_of (mapPackagesByFile e pkgs) f = Some k"
  from map_of_fold_units [OF this [unfolded mapPackagesByFile_def]]
  show "\<exists>p \<in> set pkgs. ImportPath p = k \<and> f \<in> unit_files e p" by simp
next
  assume "\<exists>p \<in> set pkgs. ImportPath p = k \<and> f \<in> unit_files e p"
  then obtain p where p: "p \<in> set pkgs" "ImportPath p = k" "f \<in> unit_files e p" by auto
  then have "f \<in> dom (map_of (mapPackagesByFile e pkgs))"
    unfolding mapPackagesByFile_def by (intro dom_fold_units) auto
  then obtain k' where k': "map_of (mapPackagesByFile e pkgs) f = Some k'" by auto
  from map_of_fold_units [OF this [unfolded mapPackagesByFile_def]]
  obtain q where q: "q \<in> set pkgs" "ImportPath q = k'" "f \<in> unit_files e q" by auto
  from assms p q have "ImportPath p = ImportPath q"
    unfolding files_owned_once_def by blast
  with p q k' show "map_of (mapPackagesByFile e pkgs) f = Some k" by simp
qed

text \<open>
  C6. For an inventory in which a source file belongs to one unit only, and whatever order
  the runtime ranges over the maps in, \<open>affectedPackagesByFileChanges\<close> returns one
  change record for each unit that owns at least one changed file and no other record;
  the reasons of a record are the reasons of the changed files of its unit, one for each
  occurrence, in the order of the changed-file list; and the changed files that belong to
  no unit can be removed from the list without changing the result.
\<close>

theorem file_changes_one_record_per_unit:
  assumes "valid_range rng" and "files_owned_once e (AllPackages report)"
  shows "distinct (map PackageName (affectedPackagesByFileChanges e rng report))
       \<and> change_ids (affectedPackagesByFileChanges e rng report) =
           {ImportPath p | p. p \<in> set (AllPackages report)
                              \<and> unit_files e p \<inter> set (DirtyFiles report) \<noteq> {}}
       \<and> (\<forall>c \<in> set (affectedPackagesByFileChanges e rng report).
            Reasons c =
              map file_reason
                (filter (\<lambda>f. \<exists>p \<in> set (AllPackages report).
                               ImportPath p = PackageName c \<and> f \<in> unit_files e p)
                   (DirtyFiles report)))
       \<and> affectedPackagesByFileChanges e rng
           (report\<lparr>DirtyFiles :=
              filter (\<lambda>f. \<exists>p \<in> set (AllPackages report). f \<in> unit_files e p)
                (DirtyFiles report)\<rparr>) =
         affectedPackagesByFileChanges e rng report"
proof -
  let ?pkgs = "AllPackages report" and ?dirty = "DirtyFiles report"
  let ?pm = "mapPackagesByFile e ?pkgs"
  let ?L = "file_changes ?pm ?dirty"
  let ?known = "filter (\<lambda>f. \<exists>p \<in> set ?pkgs. f \<in> unit_files e p) ?dirty"
  let ?L' = "file_changes ?pm ?known"
  note own = pkgMap_owner [OF assms(2)]
  have out: "affectedPackagesByFileChanges e rng report = map (merged ?L) (rng RangeAffected (change_ids ?L))"
    using assms(1) by (simp add: affectedPackagesByFileChanges_group group_changes_eq)
  have fin: "finite (change_ids ?L)" by simp
  have ks: "set (rng RangeAffected (change_ids ?L)) = change_ids ?L"
    "distinct (rng RangeAffected (change_ids ?L))"
    using assms(1) fin by (simp_all add: valid_range_set valid_range_distinct)
  have ids: "change_ids ?L = {ImportPath p | p. p \<in> set ?pkgs \<and> unit_files e p \<inter> set ?dirty \<noteq> {}}"
    unfolding change_ids_file_changes own by auto
  have rs: "reasons_for ?L k =
      map file_reason (filter (\<lambda>f. \<exists>p \<in> set ?pkgs. ImportPath p = k \<and> f \<in> unit_files e p) ?dirty)"
    for k
    unfolding reasons_for_file_changes own ..
  have same: "?L' = ?L"
  proof (rule file_changes_filter)
    fix f assume "\<not> (\<exists>p \<in> set ?pkgs. f \<in> unit_files e p)"
    with own show "map_of ?pm f = None" by (metis not_Some_eq)
  qed
  have d: "distinct (map PackageName (affectedPackagesByFileChanges e rng report))"
    unfolding out using ks(2) by (simp add: comp_def merged_def)
  have i: "change_ids (affectedPackagesByFileChanges e rng report) =
      {ImportPath p | p. p \<in> set ?pkgs \<and> unit_files e p \<inter> set ?dirty \<noteq> {}}"
    unfolding out change_ids_map_merged ks(1) by (rule ids)
  have r: "\<forall>c \<in> set (affectedPackagesByFileChanges e rng report).
      Reasons c = map file_reason
        (filter (\<lambda>f. \<exists>p \<in> set ?pkgs. ImportPath p = PackageName c \<and> f \<in> unit_files e p) ?dirty)"
    unfolding out by (auto simp: merged_def rs)
  have u: "affectedPackagesByFileChanges e rng (report\<lparr>DirtyFiles := ?known\<rparr>) =
      affectedPackagesByFileChanges e rng report"
    by (simp add: affectedPackagesByFileChanges_group same)
  from d i r u show ?thesis by (intro conjI)
qed

theorem file_changes_one_record_per_unit_witness:
  "valid_range descending_range \<and> files_owned_once example_env (AllPackages files_report)
   \<and> affectedPackagesByFileChanges example_env descending_range files_report =
       [\<lparr>PackageName = ''m/y'',
          Reasons = [''file /r/m/y/b.go has changed'', ''file /r/m/y/a.go has changed'']\<rparr>,
        \<lparr>PackageName = ''m/x'', Reasons = [''file /r/m/x/a.go has changed'']\<rparr>]
   \<and> change_ids (affectedPackagesByFileChanges example_env descending_range files_report) =
       {ImportPath p | p. p \<in> set (AllPackages files_report)
           \<and> unit_files example_env p \<inter> set (DirtyFiles files_report) \<noteq> {}}"
proof -
  have o: "files_owned_once example_env (AllPackages files_report)"
    by (simp add: files_owned_once_def files_report_def unit_files_def unit_def example_env_def)
  have v: "affectedPackagesByFileChanges example_env descending_range files_report =
       [\<lparr>PackageName = ''m/y'',
          Reasons = [''file /r/m/y/b.go has changed'', ''file /r/m/y/a.go has changed'']\<rparr>,
        \<lparr>PackageName = ''m/x'', Reasons = [''file /r/m/x/a.go has changed'']\<rparr>]"
    by code_simp
  from file_changes_one_record_per_unit [OF valid_descending_range o]
  have "change_ids (affectedPackagesByFileChanges example_env descending_range files_report) =
       {ImportPath p | p. p \<in> set (AllPackages files_report)
           \<and> unit_files example_env p \<inter> set (DirtyFiles files_report) \<noteq> {}}"
    by (elim conjE)
  with valid_descending_range o v show ?thesis by (intro conjI)
qed

subsection \<open>Manifest changes\<close>

lemma map_of_fold_require:
  "map_of (fold (\<lambda>d oldSet. AList.update (Path d) (Version d) oldSet) reqs m) =
     map_of m ++ map_of (rev (map (\<lambda>d. (Path d, Version d)) reqs))"
proof (induction reqs arbitrary: m)
  case Nil
  then show ?case by simp
next
  case (Cons d reqs)
  show ?case
    by (rule ext) (simp add: Cons.IH update_conv' map_add_def split: option.splits)
qed

lemma map_of_oldSet:
  assumes "distinct (map Path (Require oldMod))"
  shows "map_of (oldSet_of oldMod) p = Some v \<longleftrightarrow>
           (\<exists>d \<in> set (Require oldMod). Path d = p \<and> Version d = v)"
proof -
  let ?al = "rev (map (\<lambda>d. (Path d, Version d)) (Require oldMod))"
  have "distinct (map fst ?al)"
    using assms by (simp add: rev_map [symmetric] comp_def)
  then have "map_of ?al p = Some v \<longleftrightarrow> (p, v) \<in> set ?al"
    by (rule map_of_eq_Some_iff)
  then show ?thesis
    by (auto simp: oldSet_of_def map_of_fold_require)
qed

lemma changed_requirements_eq:
  assumes "distinct (map Path (Require oldMod))"
  shows "changed_requirements oldMod currentGoMod =
           map Path
             (filter (\<lambda>d. Path d \<notin> Path ` set (Require oldMod)
                          \<or> (\<exists>b \<in> set (Require oldMod). Path b = Path d \<and> Version b \<noteq> Version d))
                (Require currentGoMod))"
proof -
  have eq: "(case map_of (oldSet_of oldMod) (Path d) of None \<Rightarrow> True | Some oldVer \<Rightarrow> oldVer \<noteq> Version d)
      \<longleftrightarrow> Path d \<notin> Path ` set (Require oldMod)
          \<or> (\<exists>b \<in> set (Require oldMod). Path b = Path d \<and> Version b \<noteq> Version d)" for d
  proof (cases "map_of (oldSet_of oldMod) (Path d)")
    case None
    have "Path d \<notin> Path ` set (Require oldMod)"
    proof
      assume "Path d \<in> Path ` set (Require oldMod)"
      then obtain b where "b \<in> set (Require oldMod)" "Path b = Path d" by auto
      with map_of_oldSet [OF assms, of "Path d" "Version b"] None show False by auto
    qed
    with None show ?thesis by simp
  next
    case (Some oldVer)
    with map_of_oldSet [OF assms, of "Path d" oldVer]
    obtain b where b: "b \<in> set (Require oldMod)" "Path b = Path d" "Version b = oldVer" by auto
    have only: "Version b' = oldVer" if "b' \<in> set (Require oldMod)" "Path b' = Path d" for b'
      using map_of_oldSet [OF assms, of "Path d" "Version b'"] that Some by auto
    from b have "Path d \<in> Path ` set (Require oldMod)" by force
    with b only Some show ?thesis by auto
  qed
  show ?thesis
    unfolding changed_requirements_def Let_def
    by (rule arg_cong [where f = "map Path"], rule filter_cong [OF refl]) (rule eq)
qed

text \<open>
  C4. When the baseline manifest can be fetched, written and decoded, and its \<open>Require\<close>
  list names every path once, \<open>getChangedModules\<close> returns, in the order of the current
  \<open>Require\<close> list, exactly the paths of the current entries that are absent from the
  baseline or whose version differs from the baseline's version for the same path; a path
  that is not in the current \<open>Require\<close> list (such as one only the baseline has) is not
  returned.
\<close>

theorem manifest_differ_current_changes:
  assumes "tmp = filepath_Join e (os_TempDir e) ''go.mod.base''"
    and "respond e tr (Exec [''git'', ''show'', baseBranch r @ '':go.mod'']) = Inr out"
    and "respond e (tr @ [Exec [''git'', ''show'', baseBranch r @ '':go.mod'']])
           (WriteFile tmp out) = Inr u"
    and "respond e (tr @ [Exec [''git'', ''show'', baseBranch r @ '':go.mod''], WriteFile tmp out])
           (Exec [''go'', ''mod'', ''edit'', ''-json'', tmp]) = Inr js"
    and "json_Unmarshal_GoMod e js = Inr oldMod"
    and "distinct (map Path (Require oldMod))"
  shows "fst (getChangedModules e r currentGoMod tr) =
           Inr (map Path
                  (filter (\<lambda>d. Path d \<notin> Path ` set (Require oldMod)
                               \<or> (\<exists>b \<in> set (Require oldMod).
                                     Path b = Path d \<and> Version b \<noteq> Version d))
                     (Require currentGoMod)))
       \<and> (\<forall>changed p. fst (getChangedModules e r currentGoMod tr) = Inr changed
              \<and> p \<notin> Path ` set (Require currentGoMod) \<longrightarrow> p \<notin> set changed)"
proof -
  have "fst (getChangedModules e r currentGoMod tr) =
      Inr (changed_requirements oldMod currentGoMod)"
    using assms(1-5) by (simp add: getChangedModules_def parseGoMod_def perform_def Let_def)
  then show ?thesis
    unfolding changed_requirements_eq [OF assms(6)] by auto
qed

theorem manifest_differ_current_changes_witness:
  "respond example_env [] (Exec [''git'', ''show'', baseBranch example_rippler @ '':go.mod'']) =
     Inr ''module m''
   \<and> json_Unmarshal_GoMod example_env ''BASE'' = Inr base_manifest
   \<and> map Path (Require base_manifest) = [''ext/lib'', ''old/lib'', ''kept/lib'']
   \<and> map Path (Require current_manifest) = [''ext/lib'', ''kept/lib'', ''new/lib'']
   \<and> fst (getChangedModules example_env example_rippler current_manifest []) =
       Inr [''ext/lib'', ''new/lib'']"
proof -
  have a: "''/tmp/go.mod.base'' = filepath_Join example_env (os_TempDir example_env) ''go.mod.base''"
    by (simp add: example_env_def)
  have b: "respond example_env []
      (Exec [''git'', ''show'', baseBranch example_rippler @ '':go.mod'']) = Inr ''module m''"
    by (simp add: example_env_def example_respond_def example_rippler_def)
  have c: "respond example_env
      ([] @ [Exec [''git'', ''show'', baseBranch example_rippler @ '':go.mod'']])
      (WriteFile ''/tmp/go.mod.base'' ''module m'') = Inr []"
    by (simp add: example_env_def example_respond_def)
  have d: "respond example_env
      ([] @ [Exec [''git'', ''show'', baseBranch example_rippler @ '':go.mod''],
             WriteFile ''/tmp/go.mod.base'' ''module m''])
      (Exec [''go'', ''mod'', ''edit'', ''-json'', ''/tmp/go.mod.base'']) = Inr ''BASE''"
    by (simp add: example_env_def example_respond_def)
  have e: "json_Unmarshal_GoMod example_env ''BASE'' = Inr base_manifest"
    by (simp add: example_env_def)
  have f: "map Path (Require base_manifest) = [''ext/lib'', ''old/lib'', ''kept/lib'']"
    by (simp add: base_manifest_def manifest_def)
  then have g: "distinct (map Path (Require base_manifest))" by simp
  have h: "map Path (Require current_manifest) = [''ext/lib'', ''kept/lib'', ''new/lib'']"
    by (simp add: current_manifest_def manifest_def)
  have "map Path
       (filter (\<lambda>d. Path d \<notin> Path ` set (Require base_manifest)
                    \<or> (\<exists>b \<in> set (Require base_manifest). Path b = Path d \<and> Version b \<noteq> Version d))
          (Require current_manifest)) = [''ext/lib'', ''new/lib'']"
    by (simp add: base_manifest_def current_manifest_def manifest_def)
  with manifest_differ_current_changes [OF a b c d e g, of current_manifest]
  have "fst (getChangedModules example_env example_rippler current_manifest []) =
       Inr [''ext/lib'', ''new/lib'']"
    by simp
  with b e f h show ?thesis by (intro conjI)
qed

text \<open>
  C10. When \<open>goModHasChanged\<close> returns false, \<open>affectedPackagesByGoModChange\<close> returns
  the empty change list whatever the report holds, and the only call it has made is the
  \<open>git diff\<close> of \<open>go.mod\<close>: the baseline manifest is neither fetched, nor written, nor
  parsed.
\<close>

theorem unchanged_manifest_skips_diff:
  assumes "goModHasChanged e r tr = (Inr False, tr1)"
  shows "affectedPackagesByGoModChange e r report tr = (Inr [], tr1)
       \<and> tr1 = tr @ [Exec [''git'', ''diff'', ''--name-only'', baseBranch r, ''--'', ''go.mod'']]"
  using assms
  by (auto simp: affectedPackagesByGoModChange_def goModHasChanged_def perform_def
      split: sum.splits prod.splits)

theorem unchanged_manifest_skips_diff_witness:
  "goModHasChanged quiet_env example_rippler [] =
     (Inr False, [Exec [''git'', ''diff'', ''--name-only'', ''main'', ''--'', ''go.mod'']])
   \<and> affectedPackagesByGoModChange quiet_env example_rippler
       (zero_Report\<lparr>GoMod := current_manifest\<rparr>) [] =
     (Inr [], [Exec [''git'', ''diff'', ''--name-only'', ''main'', ''--'', ''go.mod'']])"
proof -
  have "goModHasChanged quiet_env example_rippler [] =
     (Inr False, [Exec [''git'', ''diff'', ''--name-only'', ''main'', ''--'', ''go.mod'']])"
    by code_simp
  with unchanged_manifest_skips_diff [OF this, of "zero_Report\<lparr>GoMod := current_manifest\<rparr>"]
  show ?thesis by simp
qed

subsection \<open>The pipeline\<close>

lemma Rippler_Changes_cases:
  obtains
    (parse_failed) err tr1 where
      "parseGoMod e (goModFilePath r) tr = (Inl err, tr1)"
      "Rippler_Changes e rng r tr = ((None, Some (Errorf ''failed to parse go.mod'' err)), tr1)"
  | (list_failed) gomod tr1 err tr2 where
      "parseGoMod e (goModFilePath r) tr = (Inr gomod, tr1)"
      "listAllPackages e tr1 = (Inl err, tr2)"
      "Rippler_Changes e rng r tr = ((None, Some (Errorf ''failed to list all packages'' err)), tr2)"
  | (diff_failed) gomod tr1 pkgs tr2 err tr3 where
      "parseGoMod e (goModFilePath r) tr = (Inr gomod, tr1)"
      "listAllPackages e tr1 = (Inr pkgs, tr2)"
      "getChangedGoFiles e r tr2 = (Inl err, tr3)"
      "Rippler_Changes e rng r tr = ((None, Some (Errorf ''failed to get changed Go files'' err)), tr3)"
  | (manifest_failed) gomod tr1 pkgs tr2 dirty tr3 err tr4 where
      "parseGoMod e (goModFilePath r) tr = (Inr gomod, tr1)"
      "listAllPackages e tr1 = (Inr pkgs, tr2)"
      "getChangedGoFiles e r tr2 = (Inr dirty, tr3)"
      "affectedPackagesByGoModChange e r
         (zero_Report\<lparr>GoMod := gomod, AllPackages := pkgs, DirtyFiles := dirty\<rparr>) tr3 = (Inl err, tr4)"
      "Rippler_Changes e rng r tr =
         ((None, Some (Errorf ''failed to determine affected packages by go.mod change'' err)), tr4)"
  | (external_failed) gomod tr1 pkgs tr2 dirty tr3 byMod tr4 err tr5 where
      "parseGoMod e (goModFilePath r) tr = (Inr gomod, tr1)"
      "listAllPackages e tr1 = (Inr pkgs, tr2)"
      "getChangedGoFiles e r tr2 = (Inr dirty, tr3)"
      "affectedPackagesByGoModChange e r
         (zero_Report\<lparr>GoMod := gomod, AllPackages := pkgs, DirtyFiles := dirty\<rparr>) tr3 = (Inr byMod, tr4)"
      "affectedPackagesByExternalModule e rng r tr4 = (Inl err, tr5)"
      "Rippler_Changes e rng r tr =
         ((None, Some (Errorf ''failed to determine affected packages by external module change'' err)),
          tr5)"
  | (ok) gomod tr1 pkgs tr2 dirty tr3 byMod tr4 byExternal tr5 where
      "parseGoMod e (goModFilePath r) tr = (Inr gomod, tr1)"
      "listAllPackages e tr1 = (Inr pkgs, tr2)"
      "getChangedGoFiles e r tr2 = (Inr dirty, tr3)"
      "affectedPackagesByGoModChange e r
         (zero_Report\<lparr>GoMod := gomod, AllPackages := pkgs, DirtyFiles := dirty\<rparr>) tr3 = (Inr byMod, tr4)"
      "affectedPackagesByExternalModule e rng r tr4 = (Inr byExternal, tr5)"
      "Rippler_Changes e rng r tr = ((Some (assemble e rng gomod pkgs dirty byMod byExternal), None), tr5)"
proof -
  obtain r1 tr1 where s1: "parseGoMod e (goModFilePath r) tr = (r1, tr1)" by force
  show thesis
  proof (cases r1)
    case (Inl err)
    with s1 show thesis by (intro parse_failed) (simp_all add: Rippler_Changes_def)
  next
    case (Inr gomod)
    note s1 = s1 [unfolded Inr]
    obtain r2 tr2 where s2: "listAllPackages e tr1 = (r2, tr2)" by force
    show thesis
    proof (cases r2)
      case (Inl err)
      with s1 s2 show thesis by (intro list_failed) (simp_all add: Rippler_Changes_def)
    next
      case (Inr pkgs)
      note s2 = s2 [unfolded Inr]
      obtain r3 tr3 where s3: "getChangedGoFiles e r tr2 = (r3, tr3)" by force
      show thesis
      proof (cases r3)
        case (Inl err)
        with s1 s2 s3 show thesis by (intro diff_failed) (simp_all add: Rippler_Changes_def)
      next
        case (Inr dirty)
        note s3 = s3 [unfolded Inr]
        let ?report = "zero_Report\<lparr>GoMod := gomod, AllPackages := pkgs, DirtyFiles := dirty\<rparr>"
        obtain r4 tr4 where s4: "affectedPackagesByGoModChange e r ?report tr3 = (r4, tr4)"
          by force
        show thesis
        proof (cases r4)
          case (Inl err)
          with s1 s2 s3 s4 show thesis
            by (intro manifest_failed) (simp_all add: Rippler_Changes_def Let_def)
        next
          case (Inr byMod)
          note s4 = s4 [unfolded Inr]
          obtain r5 tr5 where s5: "affectedPackagesByExternalModule e rng r tr4 = (r5, tr5)"
            by force
          show thesis
          proof (cases r5)
            case (Inl err)
            with s1 s2 s3 s4 s5 show thesis
              by (intro external_failed) (simp_all add: Rippler_Changes_def Let_def)
          next
            case (Inr byExternal)
            with s1 s2 s3 s4 s5 show thesis
              by (intro ok) (simp_all add: Rippler_Changes_def Let_def assemble_def)
          qed
        qed
      qed
    qed
  qed
qed

subsection \<open>Traces\<close>

lemma failed_calls_append:
  "failed_calls e tr (a @ b) = failed_calls e tr a @ failed_calls e (tr @ a) b"
  by (induction a arbitrary: tr) simp_all

lemma clean_self: "clean e T tr tr"
  by (simp add: clean_def)

lemma clean_trans: "clean e T tr tr1 \<Longrightarrow> clean e T tr1 tr2 \<Longrightarrow> clean e T tr tr2"
  unfolding clean_def by (fastforce simp: failed_calls_append)

lemma clean_perform: "perform e c tr = (Inr x, tr') \<Longrightarrow> clean e T tr tr'"
  unfolding clean_def perform_def by (intro exI [of _ "[c]"]) auto

lemma clean_tolerated: "perform e c tr = (res, tr') \<Longrightarrow> c \<in> T \<Longrightarrow> clean e T tr tr'"
  unfolding clean_def perform_def by (intro exI [of _ "[c]"]) (auto split: sum.splits)

lemma parseGoMod_clean:
  assumes "parseGoMod e path tr = (Inr x, tr')"
  shows "clean e T tr tr'"
proof -
  from assms obtain out where "perform e (Exec [''go'', ''mod'', ''edit'', ''-json'', path]) tr = (Inr out, tr')"
    by (auto simp: parseGoMod_def split: prod.splits sum.splits)
  then show ?thesis by (rule clean_perform)
qed

lemma listAllPackages_clean:
  assumes "listAllPackages e tr = (Inr x, tr')"
  shows "clean e T tr tr'"
proof -
  from assms obtain out where "perform e (Exec [''go'', ''list'', ''-json'', ''./...'']) tr = (Inr out, tr')"
    by (auto simp: listAllPackages_def split: prod.splits sum.splits)
  then show ?thesis by (rule clean_perform)
qed

lemma getChangedGoFiles_clean:
  assumes "getChangedGoFiles e r tr = (Inr x, tr')"
  shows "clean e T tr tr'"
proof -
  from assms obtain out where
    "perform e (Exec [''git'', ''diff'', ''--name-only'', baseBranch r]) tr = (Inr out, tr')"
    by (auto simp: getChangedGoFiles_def split: prod.splits sum.splits)
  then show ?thesis by (rule clean_perform)
qed

lemma goModHasChanged_clean:
  assumes "goModHasChanged e r tr = (Inr x, tr')"
  shows "clean e T tr tr'"
proof -
  from assms obtain out where
    "perform e (Exec [''git'', ''diff'', ''--name-only'', baseBranch r, ''--'', ''go.mod'']) tr =
       (Inr out, tr')"
    by (auto simp: goModHasChanged_def split: prod.splits sum.splits)
  then show ?thesis by (rule clean_perform)
qed

lemma getChangedModules_clean:
  assumes "getChangedModules e r currentGoMod tr = (Inr x, tr')"
  shows "clean e T tr tr'"
proof -
  let ?tmp = "filepath_Join e (os_TempDir e) ''go.mod.base''"
  from assms obtain out tr1 u tr2 oldMod where
    a: "perform e (Exec [''git'', ''show'', baseBranch r @ '':go.mod'']) tr = (Inr out, tr1)"
    and b: "perform e (WriteFile ?tmp out) tr1 = (Inr u, tr2)"
    and c: "parseGoMod e ?tmp tr2 = (Inr oldMod, tr')"
    by (auto simp: getChangedModules_def Let_def split: prod.splits sum.splits)
  show ?thesis
    by (rule clean_trans [OF clean_trans [OF clean_perform [OF a] clean_perform [OF b]]
          parseGoMod_clean [OF c]])
qed

lemma affectedPackagesByGoModChange_clean:
  assumes "affectedPackagesByGoModChange e r report tr = (Inr x, tr')"
  shows "clean e T tr tr'"
proof -
  from assms obtain modChanged tr1 where a: "goModHasChanged e r tr = (Inr modChanged, tr1)"
    by (auto simp: affectedPackagesByGoModChange_def split: prod.splits sum.splits)
  show ?thesis
  proof (cases modChanged)
    case False
    with assms a have "tr' = tr1" by (simp add: affectedPackagesByGoModChange_def)
    with goModHasChanged_clean [OF a] show ?thesis by simp
  next
    case True
    with assms a obtain changedMods where
      "getChangedModules e r (GoMod report) tr1 = (Inr changedMods, tr')"
      by (auto simp: affectedPackagesByGoModChange_def split: prod.splits sum.splits)
    from goModHasChanged_clean [OF a] getChangedModules_clean [OF this]
    show ?thesis by (rule clean_trans)
  qed
qed

lemma getAllModules_clean:
  assumes "getAllModules e tr = (Inr x, tr')"
  shows "clean e T tr tr'"
proof -
  from assms obtain out where "perform e (Exec [''go'', ''list'', ''-m'', ''all'']) tr = (Inr out, tr')"
    by (auto simp: getAllModules_def split: prod.splits sum.splits)
  then show ?thesis by (rule clean_perform)
qed

lemma list_base_modules_clean:
  assumes "list_base_modules e tmpMod tr = (Inr x, tr')"
  shows "clean e T tr tr'"
proof -
  from assms obtain out where
    "perform e (Exec [''go'', ''list'', ''-m'', ''-modfile='' @ tmpMod, ''all'']) tr = (Inr out, tr')"
    by (auto simp: list_base_modules_def split: prod.splits sum.splits)
  then show ?thesis by (rule clean_perform)
qed

lemma getBaseModules_clean:
  assumes "getBaseModules e r tr = (Inr x, tr')"
    and "Exec [''git'', ''show'', baseBranch r @ '':go.sum''] \<in> T"
  shows "clean e T tr tr'"
proof -
  let ?tmpMod = "filepath_Join e (os_TempDir e) ''go.base.mod''"
  let ?tmpSum = "filepath_Join e (os_TempDir e) ''go.base.sum''"
  let ?sum = "Exec [''git'', ''show'', baseBranch r @ '':go.sum'']"
  from assms(1) obtain out tr1 u tr2 where
    a: "perform e (Exec [''git'', ''show'', baseBranch r @ '':go.mod'']) tr = (Inr out, tr1)"
    and b: "perform e (WriteFile ?tmpMod out) tr1 = (Inr u, tr2)"
    by (auto simp: getBaseModules_def Let_def split: prod.splits sum.splits)
  obtain r3 tr3 where c: "perform e ?sum tr2 = (r3, tr3)" by force
  have upto: "clean e T tr tr3"
    by (rule clean_trans [OF clean_trans [OF clean_perform [OF a] clean_perform [OF b]]
          clean_tolerated [OF c assms(2)]])
  show ?thesis
  proof (cases r3)
    case (Inl err)
    with assms(1) a b c have "list_base_modules e ?tmpMod tr3 = (Inr x, tr')"
      by (simp add: getBaseModules_def Let_def)
    from upto list_base_modules_clean [OF this] show ?thesis by (rule clean_trans)
  next
    case (Inr sumOut)
    with assms(1) a b c obtain v tr4 where
      d: "perform e (WriteFile ?tmpSum sumOut) tr3 = (Inr v, tr4)"
      and f: "list_base_modules e ?tmpMod tr4 = (Inr x, tr')"
      by (auto simp: getBaseModules_def Let_def split: prod.splits sum.splits)
    show ?thesis
      by (rule clean_trans [OF clean_trans [OF upto clean_perform [OF d]]
            list_base_modules_clean [OF f]])
  qed
qed

lemma affectedPackagesByExternalModule_clean:
  assumes "affectedPackagesByExternalModule e rng r tr = (Inr x, tr')"
    and "Exec [''git'', ''show'', baseBranch r @ '':go.sum''] \<in> T"
  shows "clean e T tr tr'"
proof -
  from assms(1) obtain baseMods tr1 currentMods where
    a: "getBaseModules e r tr = (Inr baseMods, tr1)"
    and b: "getAllModules e tr1 = (Inr currentMods, tr')"
    by (auto simp: affectedPackagesByExternalModule_def getChangedIndirectModules_def
        split: prod.splits sum.splits)
  from getBaseModules_clean [OF a assms(2)] getAllModules_clean [OF b]
  show ?thesis by (rule clean_trans)
qed

text \<open>
  C9. \<open>Changes\<close> returns either a report and no error, or an error and no report. If a
  call made by the invocation failed, other than the fetch of the baseline \<open>go.sum\<close>
  (whose failure \<open>getBaseModules\<close> tolerates), it returns an error and no report; and
  when it returns a report, each of its five fallible stages (manifest parse, package
  listing, changed-file diff, manifest diff and resolved-dependency listing) has returned
  without error.
\<close>

theorem changes_error_and_no_report:
  assumes "Rippler_Changes e rng r tr = ((report, err), tr')"
  shows "(report = None \<longleftrightarrow> err \<noteq> None)
       \<and> ((\<exists>c \<in> set (failed_calls e tr (drop (length tr) tr')).
              c \<noteq> Exec [''git'', ''show'', baseBranch r @ '':go.sum''])
            \<longrightarrow> report = None \<and> err \<noteq> None)
       \<and> (report \<noteq> None \<longrightarrow>
            (\<exists>gomod tr1 pkgs tr2 dirty tr3 byMod tr4 byExternal.
               parseGoMod e (goModFilePath r) tr = (Inr gomod, tr1)
             \<and> listAllPackages e tr1 = (Inr pkgs, tr2)
             \<and> getChangedGoFiles e r tr2 = (Inr dirty, tr3)
             \<and> affectedPackagesByGoModChange e r
                 (zero_Report\<lparr>GoMod := gomod, AllPackages := pkgs, DirtyFiles := dirty\<rparr>) tr3 =
                 (Inr byMod, tr4)
             \<and> affectedPackagesByExternalModule e rng r tr4 = (Inr byExternal, tr')))"
proof (cases rule: Rippler_Changes_cases [of e r tr rng])
  case (ok gomod tr1 pkgs tr2 dirty tr3 byMod tr4 byExternal tr5)
  let ?T = "{Exec [''git'', ''show'', baseBranch r @ '':go.sum'']}"
  from ok(6) assms have res: "report = Some (assemble e rng gomod pkgs dirty byMod byExternal)"
    "err = None" "tr' = tr5" by simp_all
  have "clean e ?T tr tr5"
  proof -
    have c1: "clean e ?T tr tr1" by (rule parseGoMod_clean [OF ok(1)])
    have c2: "clean e ?T tr1 tr2" by (rule listAllPackages_clean [OF ok(2)])
    have c3: "clean e ?T tr2 tr3" by (rule getChangedGoFiles_clean [OF ok(3)])
    have c4: "clean e ?T tr3 tr4" by (rule affectedPackagesByGoModChange_clean [OF ok(4)])
    have c5: "clean e ?T tr4 tr5"
      by (rule affectedPackagesByExternalModule_clean [OF ok(5)]) simp
    show ?thesis
      by (rule clean_trans [OF clean_trans [OF clean_trans [OF clean_trans [OF c1 c2] c3] c4] c5])
  qed
  then obtain new where new: "tr5 = tr @ new" "set (failed_calls e tr new) \<subseteq> ?T"
    by (auto simp: clean_def)
  then have "\<not> (\<exists>c \<in> set (failed_calls e tr (drop (length tr) tr')). c \<notin> ?T)"
    using res(3) by auto
  moreover have "\<exists>gomod tr1 pkgs tr2 dirty tr3 byMod tr4 byExternal.
      parseGoMod e (goModFilePath r) tr = (Inr gomod, tr1)
    \<and> listAllPackages e tr1 = (Inr pkgs, tr2)
    \<and> getChangedGoFiles e r tr2 = (Inr dirty, tr3)
    \<and> affectedPackagesByGoModChange e r
        (zero_Report\<lparr>GoMod := gomod, AllPackages := pkgs, DirtyFiles := dirty\<rparr>) tr3 =
        (Inr byMod, tr4)
    \<and> affectedPackagesByExternalModule e rng r tr4 = (Inr byExternal, tr')"
    using ok(1-5) res(3) by blast
  ultimately show ?thesis using res(1,2) by simp
next
  case (parse_failed err0 tr1)
  from parse_failed(2) assms show ?thesis by simp
next
  case (list_failed gomod tr1 err0 tr2)
  from list_failed(3) assms show ?thesis by simp
next
  case (diff_failed gomod tr1 pkgs tr2 err0 tr3)
  from diff_failed(4) assms show ?thesis by simp
next
  case (manifest_failed gomod tr1 pkgs tr2 dirty tr3 err0 tr4)
  from manifest_failed(5) assms show ?thesis by simp
next
  case (external_failed gomod tr1 pkgs tr2 dirty tr3 byMod tr4 err0 tr5)
  from external_failed(6) assms show ?thesis by simp
qed

theorem changes_error_and_no_report_witness:
  "Rippler_Changes broken_env ascending_range example_rippler [] =
     ((None, Some (Errorf ''failed to list all packages''
                     (Errorf ''go list failed'' (ExternalError ''exit status 1'')))),
      [Exec [''go'', ''mod'', ''edit'', ''-json'', ''/r/go.mod''],
       Exec [''go'', ''list'', ''-json'', ''./...'']])
   \<and> failed_calls broken_env []
       [Exec [''go'', ''mod'', ''edit'', ''-json'', ''/r/go.mod''],
        Exec [''go'', ''list'', ''-json'', ''./...'']] =
       [Exec [''go'', ''list'', ''-json'', ''./...'']]"
proof -
  have a: "Rippler_Changes broken_env ascending_range example_rippler [] =
     ((None, Some (Errorf ''failed to list all packages''
                     (Errorf ''go list failed'' (ExternalError ''exit status 1'')))),
      [Exec [''go'', ''mod'', ''edit'', ''-json'', ''/r/go.mod''],
       Exec [''go'', ''list'', ''-json'', ''./...'']])"
    by code_simp
  have b: "failed_calls broken_env []
       [Exec [''go'', ''mod'', ''edit'', ''-json'', ''/r/go.mod''],
        Exec [''go'', ''list'', ''-json'', ''./...'']] =
       [Exec [''go'', ''list'', ''-json'', ''./...'']]"
    by code_simp
  from changes_error_and_no_report [OF a] a b show ?thesis by simp
qed

subsection \<open>Independence of the iteration order\<close>

lemma change_ids_append [simp]: "change_ids (xs @ ys) = change_ids xs \<union> change_ids ys"
  by (auto simp: change_ids_def)

lemma change_ids_group_changes:
  "valid_range rng \<Longrightarrow> change_ids (group_changes i rng L) = change_ids L"
  by (simp add: group_changes_eq change_ids_map_merged valid_range_set)

lemma finite_map_keys [simp]: "finite (map_keys m)"
  by (simp add: map_keys_def)

lemma set_changed_modules:
  assumes "valid_range rng"
  shows "set (changed_modules rng baseMods currentMods) =
           {path \<in> map_keys currentMods.
              case map_of baseMods path of
                None \<Rightarrow> True
              | Some oldVer \<Rightarrow> oldVer \<noteq> string_at currentMods path}"
  using assms by (auto simp: changed_modules_def Let_def valid_range_set)

lemma external_same_ids:
  assumes "valid_range rng" and "valid_range rng'"
    and "affectedPackagesByExternalModule e rng r tr = (res, tr')"
  shows "\<exists>res'. affectedPackagesByExternalModule e rng' r tr = (res', tr')
           \<and> (case res of
                 Inl err \<Rightarrow> res' = Inl err
               | Inr cs \<Rightarrow> \<exists>cs'. res' = Inr cs' \<and> change_ids cs' = change_ids cs)"
proof -
  obtain r1 tr1 where s1: "getBaseModules e r tr = (r1, tr1)" by force
  show ?thesis
  proof (cases r1)
    case (Inl err)
    with s1 assms(3) show ?thesis
      by (auto simp: affectedPackagesByExternalModule_def getChangedIndirectModules_def)
  next
    case (Inr baseMods)
    note s1 = s1 [unfolded Inr]
    obtain r2 tr2 where s2: "getAllModules e tr1 = (r2, tr2)" by force
    show ?thesis
    proof (cases r2)
      case (Inl err)
      with s1 s2 assms(3) show ?thesis
        by (auto simp: affectedPackagesByExternalModule_def getChangedIndirectModules_def)
    next
      case (Inr currentMods)
      have "set (changed_modules rng' baseMods currentMods) =
          set (changed_modules rng baseMods currentMods)"
        using assms(1,2) by (simp add: set_changed_modules)
      then have "change_ids (map (\<lambda>m. \<lparr>PackageName = m, Reasons = [indirect_reason m]\<rparr>)
            (changed_modules rng' baseMods currentMods)) =
          change_ids (map (\<lambda>m. \<lparr>PackageName = m, Reasons = [indirect_reason m]\<rparr>)
            (changed_modules rng baseMods currentMods))"
        by (simp add: change_ids_def image_image)
      with Inr s1 s2 assms(3) show ?thesis
        by (auto simp: affectedPackagesByExternalModule_def getChangedIndirectModules_def)
    qed
  qed
qed

lemma AffectedPackages_assemble:
  assumes "valid_range rng"
  shows "AffectedPackages (assemble e rng gomod pkgs dirty byMod byExternal) =
           map (\<lambda>pkg. \<lparr>ap_ImportPath = pkg,
                        ap_Indirect = (\<not> strings_HasPrefix pkg (Path (Module gomod)))\<rparr>)
             (sorted_list_of_set
                ((imported_by pkgs)\<^sup>* ``
                   (change_ids (file_changes (mapPackagesByFile e pkgs) dirty)
                    \<union> change_ids byMod \<union> change_ids byExternal)))"
proof -
  let ?r3 = "zero_Report\<lparr>GoMod := gomod, AllPackages := pkgs, DirtyFiles := dirty\<rparr>"
  let ?changes = "affectedPackagesByFileChanges e rng ?r3 @ byMod @ byExternal"
  let ?r4 = "?r3\<lparr>Changes := unifyChanges rng ?changes\<rparr>"
  have ids: "change_ids (unifyChanges rng ?changes) =
      change_ids (file_changes (mapPackagesByFile e pkgs) dirty)
      \<union> change_ids byMod \<union> change_ids byExternal"
    using assms
    by (simp add: unifyChanges_group affectedPackagesByFileChanges_group change_ids_group_changes
        Un_assoc)
  have "AffectedPackages (assemble e rng gomod pkgs dirty byMod byExternal) =
      propagateAffectedPackages rng ?r4"
    by (simp add: assemble_def Let_def)
  also have "\<dots> = map (affected_unit ?r4) (sorted_list_of_set (affected_ids ?r4))"
    using assms by (rule propagate_sorted_closure)
  also have "affected_ids ?r4 = (imported_by pkgs)\<^sup>* ``
      (change_ids (file_changes (mapPackagesByFile e pkgs) dirty)
       \<union> change_ids byMod \<union> change_ids byExternal)"
    by (simp add: affected_ids_def ids)
  also have "affected_unit ?r4 = (\<lambda>pkg. \<lparr>ap_ImportPath = pkg,
      ap_Indirect = (\<not> strings_HasPrefix pkg (Path (Module gomod)))\<rparr>)"
    by (rule ext) (simp add: affected_unit_def)
  finally show ?thesis .
qed

text \<open>
  C8. Two runs of \<open>Changes\<close> in the same environment (the same outcome of every
  subprocess and file write, the same standard-library functions, the same receiver) that
  differ only in the orders in which the runtime ranges over the maps make the same
  calls and return the same error or, in their reports, the same \<open>AffectedPackages\<close> list.
\<close>

theorem affected_packages_deterministic:
  assumes "valid_range rng" and "valid_range rng'"
  shows "map_option AffectedPackages (fst (fst (Rippler_Changes e rng r tr))) =
           map_option AffectedPackages (fst (fst (Rippler_Changes e rng' r tr)))
       \<and> snd (fst (Rippler_Changes e rng r tr)) = snd (fst (Rippler_Changes e rng' r tr))
       \<and> snd (Rippler_Changes e rng r tr) = snd (Rippler_Changes e rng' r tr)"
proof (cases rule: Rippler_Changes_cases [of e r tr rng])
  case (parse_failed err tr1)
  from parse_failed(1) have "Rippler_Changes e rng' r tr =
      ((None, Some (Errorf ''failed to parse go.mod'' err)), tr1)"
    by (simp add: Rippler_Changes_def)
  with parse_failed(2) show ?thesis by simp
next
  case (list_failed gomod tr1 err tr2)
  from list_failed(1,2) have "Rippler_Changes e rng' r tr =
      ((None, Some (Errorf ''failed to list all packages'' err)), tr2)"
    by (simp add: Rippler_Changes_def)
  with list_failed(3) show ?thesis by simp
next
  case (diff_failed gomod tr1 pkgs tr2 err tr3)
  from diff_failed(1-3) have "Rippler_Changes e rng' r tr =
      ((None, Some (Errorf ''failed to get changed Go files'' err)), tr3)"
    by (simp add: Rippler_Changes_def)
  with diff_failed(4) show ?thesis by simp
next
  case (manifest_failed gomod tr1 pkgs tr2 dirty tr3 err tr4)
  from manifest_failed(1-4) have "Rippler_Changes e rng' r tr =
      ((None, Some (Errorf ''failed to determine affected packages by go.mod change'' err)), tr4)"
    by (simp add: Rippler_Changes_def Let_def)
  with manifest_failed(5) show ?thesis by simp
next
  case (external_failed gomod tr1 pkgs tr2 dirty tr3 byMod tr4 err tr5)
  from external_same_ids [OF assms external_failed(5)]
  have "affectedPackagesByExternalModule e rng' r tr4 = (Inl err, tr5)" by auto
  with external_failed(1-4) have "Rippler_Changes e rng' r tr =
      ((None, Some (Errorf ''failed to determine affected packages by external module change'' err)),
       tr5)"
    by (simp add: Rippler_Changes_def Let_def)
  with external_failed(6) show ?thesis by simp
next
  case (ok gomod tr1 pkgs tr2 dirty tr3 byMod tr4 byExternal tr5)
  from external_same_ids [OF assms ok(5)] obtain byExternal' where
    e': "affectedPackagesByExternalModule e rng' r tr4 = (Inr byExternal', tr5)"
    and ids: "change_ids byExternal' = change_ids byExternal" by auto
  from ok(1-4) e' have "Rippler_Changes e rng' r tr =
      ((Some (assemble e rng' gomod pkgs dirty byMod byExternal'), None), tr5)"
    by (simp add: Rippler_Changes_def Let_def assemble_def)
  with ok(6) show ?thesis
    by (simp add: AffectedPackages_assemble assms ids)
qed

theorem affected_packages_deterministic_witness:
  "valid_range ascending_range \<and> valid_range descending_range
   \<and> map_option AffectedPackages
       (fst (fst (Rippler_Changes example_env ascending_range example_rippler []))) =
     Some [\<lparr>ap_ImportPath = ''ext/lib'', ap_Indirect = True\<rparr>,
           \<lparr>ap_ImportPath = ''m/x'', ap_Indirect = False\<rparr>,
           \<lparr>ap_ImportPath = ''m/y'', ap_Indirect = False\<rparr>,
           \<lparr>ap_ImportPath = ''new/lib'', ap_Indirect = True\<rparr>]
   \<and> map_option AffectedPackages
       (fst (fst (Rippler_Changes example_env descending_range example_rippler []))) =
     Some [\<lparr>ap_ImportPath = ''ext/lib'', ap_Indirect = True\<rparr>,
           \<lparr>ap_ImportPath = ''m/x'', ap_Indirect = False\<rparr>,
           \<lparr>ap_ImportPath = ''m/y'', ap_Indirect = False\<rparr>,
           \<lparr>ap_ImportPath = ''new/lib'', ap_Indirect = True\<rparr>]"
proof -
  have "map_option AffectedPackages
       (fst (fst (Rippler_Changes example_env ascending_range example_rippler []))) =
     Some [\<lparr>ap_ImportPath = ''ext/lib'', ap_Indirect = True\<rparr>,
           \<lparr>ap_ImportPath = ''m/x'', ap_Indirect = False\<rparr>,
           \<lparr>ap_ImportPath = ''m/y'', ap_Indirect = False\<rparr>,
           \<lparr>ap_ImportPath = ''new/lib'', ap_Indirect = True\<rparr>]"
    by code_simp
  with affected_packages_deterministic [OF valid_ascending_range valid_descending_range,
      of example_env example_rippler "[]"]
  show ?thesis by (simp add: valid_ascending_range valid_descending_range)
qed

end
